theory Spec2Isabelle
  imports Complex_Main "HOL-Library.Sublist" "HOL-Library.AList"
begin

section \<open>Python strings\<close>

text \<open>
  A Python \<open>str\<close> is modelled as a HOL \<open>string\<close>: a list of characters whose code points
  are below 256.  The character classes below are those of CPython for that range:
  \<open>str.isspace\<close> (which is also what \<open>str.strip()\<close> removes and what \<open>\s\<close> matches),
  the word characters of \<open>\w\<close>, and \<open>str.lower\<close>.
\<close>

definition NL :: char where
  "NL = CHR 0x0A"

definition is_space :: "char \<Rightarrow> bool" where
  "is_space c =
     (let n = (of_char c :: nat)
      in (9 \<le> n \<and> n \<le> 13) \<or> (28 \<le> n \<and> n \<le> 32) \<or> n = 133 \<or> n = 160)"

definition is_word :: "char \<Rightarrow> bool" where
  "is_word c =
     (let n = (of_char c :: nat)
      in (48 \<le> n \<and> n \<le> 57) \<or> (65 \<le> n \<and> n \<le> 90) \<or> n = 95 \<or> (97 \<le> n \<and> n \<le> 122)
         \<or> n = 170 \<or> n = 178 \<or> n = 179 \<or> n = 181 \<or> n = 185 \<or> n = 186
         \<or> (188 \<le> n \<and> n \<le> 190) \<or> (192 \<le> n \<and> n \<le> 214)
         \<or> (216 \<le> n \<and> n \<le> 246) \<or> (248 \<le> n \<and> n \<le> 255))"

definition lower_char :: "char \<Rightarrow> char" where
  "lower_char c =
     (let n = (of_char c :: nat)
      in if (65 \<le> n \<and> n \<le> 90) \<or> (192 \<le> n \<and> n \<le> 214) \<or> (216 \<le> n \<and> n \<le> 222)
         then char_of (n + 32) else c)"

definition lower :: "string \<Rightarrow> string" where
  "lower s = map lower_char s"

definition strip :: "string \<Rightarrow> string" where
  "strip s = rev (dropWhile is_space (rev (dropWhile is_space s)))"

text \<open>\<open>a in b\<close> on strings: \<open>a\<close> occurs in \<open>b\<close> as a contiguous run.\<close>

fun is_sub :: "string \<Rightarrow> string \<Rightarrow> bool" where
  "is_sub a [] = (a = [])"
| "is_sub a (c # cs) = (prefix a (c # cs) \<or> is_sub a cs)"

definition endswith :: "string \<Rightarrow> string \<Rightarrow> bool" where
  "endswith s suf = suffix suf s"

text \<open>\<open>sep.join(xs)\<close>.\<close>

fun join :: "string \<Rightarrow> string list \<Rightarrow> string" where
  "join sep [] = []"
| "join sep [x] = x"
| "join sep (x # y # ys) = x @ sep @ join sep (y # ys)"

text \<open>\<open>s.index(a)\<close>: the position of the first occurrence, \<open>None\<close> where Python raises
  \<open>ValueError\<close>.\<close>

fun index_of :: "string \<Rightarrow> string \<Rightarrow> nat option" where
  "index_of a [] = (if a = [] then Some 0 else None)"
| "index_of a (c # cs) =
     (if prefix a (c # cs) then Some 0 else map_option Suc (index_of a cs))"

text \<open>\<open>s.replace(old, new)\<close> for a non-empty \<open>old\<close> (the program only replaces the literals
  \<open></head>\<close>, \<open></body>\<close> and \<open><html>\<close>): every non-overlapping occurrence, left to right.\<close>

function replace :: "string \<Rightarrow> string \<Rightarrow> string \<Rightarrow> string" where
  "replace old new [] = []"
| "replace old new (c # cs) =
     (if old \<noteq> [] \<and> prefix old (c # cs)
      then new @ replace old new (drop (length old) (c # cs))
      else c # replace old new cs)"
  by pat_completeness auto
termination
proof (relation "measure (\<lambda>(old, new, s). length s)")
  fix old new :: string and c cs
  assume "old \<noteq> [] \<and> prefix old (c # cs)"
  then have "0 < length old" by simp
  then show "((old, new, drop (length old) (c # cs)), (old, new, c # cs))
              \<in> measure (\<lambda>(old, new, s). length s)"
    by simp
qed simp_all

text \<open>\<open>str(n)\<close> for a non-negative integer: its decimal digits.\<close>

definition digit_char :: "nat \<Rightarrow> char" where
  "digit_char d = char_of (48 + d)"

function str_nat :: "nat \<Rightarrow> string" where
  "str_nat n = (if n < 10 then [digit_char n] else str_nat (n div 10) @ [digit_char (n mod 10)])"
  by pat_completeness auto
termination
  by (relation "measure id") auto

definition str_int :: "int \<Rightarrow> string" where
  "str_int i = (if i < 0 then CHR ''-'' # str_nat (nat (- i)) else str_nat (nat i))"

section \<open>Regular expressions\<close>

text \<open>
  The fragment of Python's \<open>re\<close> that the program's patterns use, with the backtracking
  order of \<open>re\<close>: a literal (case-sensitive, or compared in lower case under
  \<open>re.IGNORECASE\<close>), a repetition of one character class (greedy or lazy, with its bounds),
  sequence, ordered alternation, a capturing group and the empty pattern.  A match is
  searched in priority order by a continuation: the first way of matching the rest wins.
\<close>

datatype re =
    Lit string
  | LitCI string
  | Rep bool "char \<Rightarrow> bool" nat "nat option"
  | Seq re re
  | Alt re re
  | Grp nat re
  | Eps

fun rep_greedy ::
  "(char \<Rightarrow> bool) \<Rightarrow> nat \<Rightarrow> nat option \<Rightarrow> string \<Rightarrow> (string \<Rightarrow> 'r option) \<Rightarrow> 'r option" where
  "rep_greedy P lo hi [] k = (if lo = 0 then k [] else None)"
| "rep_greedy P lo hi (c # cs) k =
     (if P c \<and> hi \<noteq> Some 0
      then (case rep_greedy P (lo - 1) (map_option (\<lambda>h. h - 1) hi) cs k of
              Some r \<Rightarrow> Some r
            | None \<Rightarrow> if lo = 0 then k (c # cs) else None)
      else if lo = 0 then k (c # cs) else None)"

fun rep_lazy ::
  "(char \<Rightarrow> bool) \<Rightarrow> nat \<Rightarrow> nat option \<Rightarrow> string \<Rightarrow> (string \<Rightarrow> 'r option) \<Rightarrow> 'r option" where
  "rep_lazy P lo hi [] k = (if lo = 0 then k [] else None)"
| "rep_lazy P lo hi (c # cs) k =
     (case (if lo = 0 then k (c # cs) else None) of
        Some r \<Rightarrow> Some r
      | None \<Rightarrow>
          if P c \<and> hi \<noteq> Some 0
          then rep_lazy P (lo - 1) (map_option (\<lambda>h. h - 1) hi) cs k
          else None)"

text \<open>\<open>rmatch r s g k\<close>: match \<open>r\<close> at the start of \<open>s\<close> with the groups \<open>g\<close> captured so
  far, then continue with \<open>k\<close> on the rest of the text.\<close>

fun rmatch ::
  "re \<Rightarrow> string \<Rightarrow> string list \<Rightarrow> (string \<Rightarrow> string list \<Rightarrow> 'r option) \<Rightarrow> 'r option" where
  "rmatch (Lit l) s g k = (if prefix l s then k (drop (length l) s) g else None)"
| "rmatch (LitCI l) s g k =
     (if prefix (lower l) (lower s) then k (drop (length l) s) g else None)"
| "rmatch (Rep greedy P lo hi) s g k =
     (if greedy then rep_greedy P lo hi s (\<lambda>s'. k s' g) else rep_lazy P lo hi s (\<lambda>s'. k s' g))"
| "rmatch (Seq a b) s g k = rmatch a s g (\<lambda>s' g'. rmatch b s' g' k)"
| "rmatch (Alt a b) s g k =
     (case rmatch a s g k of Some r \<Rightarrow> Some r | None \<Rightarrow> rmatch b s g k)"
| "rmatch (Grp n a) s g k =
     rmatch a s g (\<lambda>s' g'. k s' (g'[n := take (length s - length s') s]))"
| "rmatch Eps s g k = k s g"

text \<open>A match at the start of \<open>s\<close>: the captured groups (the empty string for a group that
  took no part, as \<open>re.findall\<close> reports it) and the text after the match.\<close>

definition match_at :: "re \<Rightarrow> nat \<Rightarrow> string \<Rightarrow> (string list \<times> string) option" where
  "match_at r n s = rmatch r s (replicate n []) (\<lambda>rest g. Some (g, rest))"

text \<open>\<open>re.findall\<close>: scan from the left; after a match continue behind it, otherwise move on
  by one character.  (Every pattern of the program contains a literal fence, so no match is
  empty; after an empty match the scan moves on by one character.)\<close>

function findall :: "re \<Rightarrow> nat \<Rightarrow> string \<Rightarrow> string list list" where
  "findall r n s =
     (case match_at r n s of
        Some (g, rest) \<Rightarrow>
          g # (if length rest < length s then findall r n rest
               else (case s of [] \<Rightarrow> [] | c # cs \<Rightarrow> findall r n cs))
      | None \<Rightarrow> (case s of [] \<Rightarrow> [] | c # cs \<Rightarrow> findall r n cs))"
  by pat_completeness auto
termination
  by (relation "measure (\<lambda>(r, n, s). length s)") auto

definition seqs :: "re list \<Rightarrow> re" where
  "seqs rs = foldr Seq rs Eps"

definition any_char :: "char \<Rightarrow> bool" where
  "any_char c = True"

definition not_nl :: "char \<Rightarrow> bool" where
  "not_nl c = (c \<noteq> NL)"

definition fence :: string where
  "fence = ''```''"

text \<open>Building blocks shared by the patterns: \<open>\s*\<close>, the optional language tag
  \<open>(?:\w+)?\<close>, the lazy body \<open>.*?\<close> (under \<open>re.DOTALL\<close>) and the marker word
  \<open>(?:filename|file)\<close>.\<close>

definition spaces :: re where
  "spaces = Rep True is_space 0 None"

definition opt_tag :: re where
  "opt_tag = Alt (Rep True is_word 1 None) Eps"

definition body :: re where
  "body = Rep False any_char 0 None"

definition marker_word :: re where
  "marker_word = Alt (LitCI ''filename'') (LitCI ''file'')"

text \<open>The four patterns of \<open>_extract_files_from_response\<close>; the last three are compiled
  with \<open>re.IGNORECASE\<close>.
  \<^item> \<open>pattern1\<close>: a fence, \<open>(\w+)\<close>, a colon, \<open>([^\n]+)\<close>, a newline, the lazy body, a fence.
  \<^item> \<open>pattern2\<close>: \<open><!--\<close>, \<open>\s*\<close>, the marker word, a colon, \<open>\s*\<close>, \<open>([^\n]+?)\<close>, \<open>\s*\<close>,
    \<open>-->\<close>, \<open>\s*\<close>, a fence, the optional tag, a newline, the lazy body, a fence.
  \<^item> \<open>pattern3\<close>: one of \<open>//\<close>, \<open>#\<close>, slash-star; \<open>\s*\<close>, the marker word, a colon, \<open>\s*\<close>,
    \<open>([^\n]+?)\<close>, an optional star-slash, \<open>\s*\<close>, a newline, \<open>\s*\<close>, a fence, the optional
    tag, a newline, the lazy body, a fence.
  \<^item> \<open>pattern4\<close>: \<open>#{1,6}\<close>, \<open>\s+\<close>, the group \<open>[^\n]+\.(?:html|js|css|json|jsx|tsx|ts)\<close>,
    \<open>\s*\<close>, a newline, \<open>\s*\<close>, a fence, the optional tag, a newline, the lazy body, a
    fence.\<close>

definition files_pattern1 :: re where
  "files_pattern1 =
     seqs [Lit fence, Grp 0 (Rep True is_word 1 None), Lit '':'', Grp 1 (Rep True not_nl 1 None),
           Lit [NL], Grp 2 body, Lit fence]"

definition files_pattern2 :: re where
  "files_pattern2 =
     seqs [Lit ''<!--'', spaces, marker_word, Lit '':'', spaces, Grp 0 (Rep False not_nl 1 None),
           spaces, Lit ''-->'', spaces, Lit fence, opt_tag, Lit [NL], Grp 1 body, Lit fence]"

definition files_pattern3 :: re where
  "files_pattern3 =
     seqs [Alt (Lit ''//'') (Alt (Lit ''#'') (Lit ''/*'')), spaces, marker_word, Lit '':'', spaces,
           Grp 0 (Rep False not_nl 1 None), Alt (Lit ''*/'') Eps, spaces, Lit [NL], spaces,
           Lit fence, opt_tag, Lit [NL], Grp 1 body, Lit fence]"

definition file_ext :: re where
  "file_ext =
     Alt (LitCI ''html'') (Alt (LitCI ''js'') (Alt (LitCI ''css'') (Alt (LitCI ''json'')
       (Alt (LitCI ''jsx'') (Alt (LitCI ''tsx'') (LitCI ''ts''))))))"

definition files_pattern4 :: re where
  "files_pattern4 =
     seqs [Rep True (\<lambda>c. c = CHR ''#'') 1 (Some 6), Rep True is_space 1 None,
           Grp 0 (seqs [Rep True not_nl 1 None, Lit ''.'', file_ext]),
           spaces, Lit [NL], spaces, Lit fence, opt_tag, Lit [NL], Grp 1 body, Lit fence]"

text \<open>The pattern of \<open>_infer_files_from_blocks\<close>: a fence, \<open>(\w+)?\<close>, a newline, the lazy
  body, a fence.\<close>

definition infer_pattern :: re where
  "infer_pattern =
     seqs [Lit fence, Alt (Grp 0 (Rep True is_word 1 None)) Eps, Lit [NL], Grp 1 body, Lit fence]"

text \<open>The two patterns of \<open>_extract_code\<close>: a fence, \<open>(\w+)?\<close>, \<open>\s*\<close>, then a newline
  (\<open>pattern1\<close>) or nothing (\<open>pattern2\<close>), the lazy body, a fence.\<close>

definition code_pattern1 :: re where
  "code_pattern1 =
     seqs [Lit fence, Alt (Grp 0 (Rep True is_word 1 None)) Eps, spaces, Lit [NL], Grp 1 body,
           Lit fence]"

definition code_pattern2 :: re where
  "code_pattern2 =
     seqs [Lit fence, Alt (Grp 0 (Rep True is_word 1 None)) Eps, spaces, Grp 1 body, Lit fence]"

section \<open>Artifact extractor (\<open>artifact_extractor.py\<close>)\<close>

text \<open>A Python \<open>dict\<close> from file name to content keeps its insertion order: it is an
  association list, and \<open>files[name] = content\<close> is \<open>AList.update\<close> (an existing key keeps
  its place and takes the new content, a new key goes to the end).\<close>

type_synonym files = "(string \<times> string) list"

text \<open>The exceptions of the program, with the message \<open>str(e)\<close> gives.\<close>

datatype exc = FileNotFoundError string | TimeoutExpired | OtherException string

fun exc_str :: "exc \<Rightarrow> string" where
  "exc_str (FileNotFoundError m) = m"
| "exc_str TimeoutExpired = ''timed out''"
| "exc_str (OtherException m) = m"

text \<open>The loop bodies of \<open>_extract_files_from_response\<close>:
  \<open>files[filename.strip()] = code.strip()\<close>, for the three groups of \<open>pattern1\<close> and the two
  groups of the other patterns.\<close>

fun store3 :: "files \<Rightarrow> string list \<Rightarrow> files" where
  "store3 fs [lang, filename, code] = AList.update (strip filename) (strip code) fs"
| "store3 fs g = fs"

fun store2 :: "files \<Rightarrow> string list \<Rightarrow> files" where
  "store2 fs [filename, code] = AList.update (strip filename) (strip code) fs"
| "store2 fs g = fs"

text \<open>\<open>_infer_files_from_blocks\<close>: the loop state is the dictionary and the three counters
  \<open>html_count\<close>, \<open>css_count\<close>, \<open>js_count\<close>.\<close>

fun infer_step :: "files \<times> nat \<times> nat \<times> nat \<Rightarrow> string list \<Rightarrow> files \<times> nat \<times> nat \<times> nat" where
  "infer_step (fs, html_count, css_count, js_count) [lang0, code0] =
     (let lang = lower lang0; code = strip code0 in
      if lang \<in> set [''html'', ''htm''] \<or> is_sub ''<html'' (lower code) \<or> is_sub ''<!DOCTYPE'' code
      then (AList.update
              (if html_count = 0 then ''index.html'' else ''page'' @ str_nat html_count @ ''.html'')
              code fs,
            html_count + 1, css_count, js_count)
      else if lang = ''css''
      then (AList.update
              (if css_count = 0 then ''styles.css'' else ''styles'' @ str_nat css_count @ ''.css'')
              code fs,
            html_count, css_count + 1, js_count)
      else if lang \<in> set [''javascript'', ''js'', ''jsx'']
      then (AList.update
              (if is_sub ''export '' code \<or> is_sub ''import '' code
               then (if js_count = 0 then ''app.js'' else ''module'' @ str_nat js_count @ ''.js'')
               else (if js_count = 0 then ''script.js'' else ''script'' @ str_nat js_count @ ''.js''))
              code fs,
            html_count, css_count, js_count + 1)
      else if lang \<in> set [''typescript'', ''ts'', ''tsx'']
      then (AList.update
              (''app'' @ (if js_count > 0 then str_nat js_count else []) @ ''.ts'')
              code fs,
            html_count, css_count, js_count + 1)
      else if lang = ''json''
      then (AList.update ''config.json'' code fs, html_count, css_count, js_count)
      else (fs, html_count, css_count, js_count))"
| "infer_step st g = st"

definition infer_files_from_blocks :: "string \<Rightarrow> files" where
  "infer_files_from_blocks text =
     fst (foldl infer_step ([], 0, 0, 0) (findall infer_pattern 2 text))"

text \<open>The files the four hinting conventions name, accumulated in one dictionary in the order
  of the source: all matches of \<open>pattern1\<close>, then of \<open>pattern2\<close>, \<open>pattern3\<close>, \<open>pattern4\<close>.\<close>

definition hinted_files :: "string \<Rightarrow> files" where
  "hinted_files text =
     (let fs = foldl store3 [] (findall files_pattern1 3 text);
          fs = foldl store2 fs (findall files_pattern2 2 text);
          fs = foldl store2 fs (findall files_pattern3 2 text);
          fs = foldl store2 fs (findall files_pattern4 2 text)
      in fs)"

definition extract_files_from_response :: "string \<Rightarrow> files" where
  "extract_files_from_response text =
     (let fs = hinted_files text in if fs = [] then infer_files_from_blocks text else fs)"

text \<open>\<open>_determine_entry_point\<close>; \<open>None\<close> is the \<open>IndexError\<close> of \<open>list(files.keys())[0]\<close>
  on an empty dictionary.\<close>

definition determine_entry_point :: "files \<Rightarrow> string option" where
  "determine_entry_point fs =
     (if ''index.html'' \<in> set (map fst fs) then Some ''index.html''
      else (case filter (\<lambda>f. endswith f ''.html'') (map fst fs) of
              h # hs \<Rightarrow> Some h
            | [] \<Rightarrow> (case map fst fs of f # r \<Rightarrow> Some f | [] \<Rightarrow> None)))"

datatype artifact_type = multi_file | single_file

record artifact =
  atype :: artifact_type
  entry_point :: string
  afiles :: files
  directory :: "string option"
  file_count :: "nat option"
  content :: "string option"

text \<open>\<open>extract_multi_file_artifact\<close>.  Writing the files of a multi-file artifact under
  \<open>temp_base_dir / artifact_id\<close> can fail; \<open>write_error\<close> is the exception it then raises
  (\<open>None\<close> when the files are written).\<close>

definition extract_multi_file_artifact ::
  "string \<Rightarrow> exc option \<Rightarrow> string \<Rightarrow> string \<Rightarrow> exc + artifact option" where
  "extract_multi_file_artifact temp_base_dir write_error response_text artifact_id =
     (let fs = extract_files_from_response response_text in
      if fs = [] then Inr None
      else if length fs > 1 \<or> list_ex (\<lambda>(f, c). is_sub ''import'' c \<or> is_sub ''require('' c) fs
      then (case write_error of
              Some e \<Rightarrow> Inl e
            | None \<Rightarrow>
               (case determine_entry_point fs of
                  None \<Rightarrow> Inl (OtherException ''list index out of range'')
                | Some ep \<Rightarrow>
                    Inr (Some \<lparr>atype = multi_file, entry_point = ep, afiles = fs,
                               directory = Some (temp_base_dir @ ''/'' @ artifact_id),
                               file_count = Some (length fs), content = None\<rparr>)))
      else (case fs of
              (filename, c) # r \<Rightarrow>
                Inr (Some \<lparr>atype = single_file, entry_point = filename, afiles = fs,
                           directory = None, file_count = None, content = Some c\<rparr>)
            | [] \<Rightarrow> Inl (OtherException ''list index out of range'')))"

section \<open>Code executor (\<open>evaluators/code_executor.py\<close>)\<close>

subsection \<open>Data\<close>

text \<open>\<open>Question\<close>, \<open>ModelResponse\<close> and \<open>Evaluation\<close> with the fields the executor reads and
  writes.  \<open>metadata\<close> is the question's dictionary; the only key read is \<open>expected_files\<close>.
  A score is a Python number (\<open>0.0\<close>, \<open>50.0\<close>, \<open>100.0\<close>, or a sum of the integers 30, 15, 20,
  10); it is modelled as a real.\<close>

record question =
  q_id :: string
  expected_output :: "string option"
  metadata :: "string \<rightharpoonup> string list"

record model_response =
  model_name :: string
  response_text :: "string option"
  error :: "string option"

datatype detail =
    DStr string | DBool bool | DNat nat | DNone | DStrs "string list" | DInts "int list"

record evaluation =
  question_id :: string
  ev_model_name :: string
  score :: real
  passed :: bool
  evaluation_type :: string
  reasoning :: string
  details :: "(string \<times> detail) list"
  timestamp :: string

text \<open>Truth of an optional string: \<open>None\<close> and the empty string are false.\<close>

fun truthy :: "string option \<Rightarrow> bool" where
  "truthy None = False"
| "truthy (Some s) = (s \<noteq> [])"

subsection \<open>Sandboxed execution\<close>

text \<open>
  The file system is the set of paths that exist.  What the outside world does during one
  execution is a record: whether \<open>node --version\<close> runs (JavaScript only), what
  \<open>tempfile.mkdtemp\<close> returns, whether the script file can be written, what
  \<open>subprocess.run\<close> returns or raises, what the interpreter process did to the file system,
  and whether \<open>shutil.rmtree\<close> succeeds.
\<close>

type_synonym fs = "string set"

record exec_world =
  node_check :: "exc option"
  mkdtemp :: "exc + string"
  write_script :: "exc option"
  run :: "exc + (int \<times> string \<times> string)"
  run_effect :: "fs \<Rightarrow> fs"
  rmtree_ok :: bool

record code_executor =
  timeout :: int
  temp_base_dir :: string

text \<open>The outer \<open>finally\<close> of both executors:
  \<open>if temp_dir and os.path.exists(temp_dir): try: shutil.rmtree(temp_dir) except: pass\<close>.\<close>

definition cleanup :: "exec_world \<Rightarrow> string option \<Rightarrow> fs \<Rightarrow> fs" where
  "cleanup w temp_dir paths =
     (case temp_dir of
        None \<Rightarrow> paths
      | Some d \<Rightarrow>
          if d \<noteq> [] \<and> d \<in> paths
          then (if rmtree_ok w then paths - {d} else paths)
          else paths)"

text \<open>The \<open>except\<close> clauses, in the order of the source.\<close>

fun python_handler :: "code_executor \<Rightarrow> exc \<Rightarrow> bool \<times> string \<times> string" where
  "python_handler self TimeoutExpired =
     (False, [], ''Execution timed out after '' @ str_int (timeout self) @ '' seconds'')"
| "python_handler self e = (False, [], exc_str e)"

fun javascript_handler :: "code_executor \<Rightarrow> exc \<Rightarrow> bool \<times> string \<times> string" where
  "javascript_handler self (FileNotFoundError m) =
     (False, [], ''Node.js is not installed or not in PATH'')"
| "javascript_handler self TimeoutExpired =
     (False, [], ''Execution timed out after '' @ str_int (timeout self) @ '' seconds'')"
| "javascript_handler self e = (False, [], exc_str e)"

text \<open>The body both executors share from \<open>mkdtemp\<close> on: create the directory, write the
  script, run the interpreter, and clean up on every way out.\<close>

definition run_in_temp_dir ::
  "(exc \<Rightarrow> bool \<times> string \<times> string) \<Rightarrow> exec_world \<Rightarrow> fs \<Rightarrow> (bool \<times> string \<times> string) \<times> fs" where
  "run_in_temp_dir handler w fs0 =
     (case mkdtemp w of
        Inl e \<Rightarrow> (handler e, cleanup w None fs0)
      | Inr d \<Rightarrow>
          (let fs1 = insert d fs0 in
           case write_script w of
             Some e \<Rightarrow> (handler e, cleanup w (Some d) fs1)
           | None \<Rightarrow>
               (let fs2 = run_effect w fs1 in
                case run w of
                  Inl e \<Rightarrow> (handler e, cleanup w (Some d) fs2)
                | Inr (returncode, out, err) \<Rightarrow>
                    ((returncode = 0, out, err), cleanup w (Some d) fs2))))"

definition execute_python ::
  "code_executor \<Rightarrow> exec_world \<Rightarrow> string \<Rightarrow> fs \<Rightarrow> (bool \<times> string \<times> string) \<times> fs" where
  "execute_python self w code fs0 = run_in_temp_dir (python_handler self) w fs0"

definition execute_javascript ::
  "code_executor \<Rightarrow> exec_world \<Rightarrow> string \<Rightarrow> fs \<Rightarrow> (bool \<times> string \<times> string) \<times> fs" where
  "execute_javascript self w code fs0 =
     (case node_check w of
        Some e \<Rightarrow> (javascript_handler self e, cleanup w None fs0)
      | None \<Rightarrow> run_in_temp_dir (javascript_handler self) w fs0)"

text \<open>\<open>_validate_html\<close>.  \<open>str.index\<close> raises \<open>ValueError\<close> on a missing substring.\<close>

definition validate_html :: "string \<Rightarrow> exc + (bool \<times> string \<times> string)" where
  "validate_html code =
     (let code_lower = lower code;
          missing_tags =
            filter (\<lambda>tag. \<not> is_sub tag code_lower) [''<html'', ''</html>'', ''<body'', ''</body>'']
      in if missing_tags \<noteq> []
         then Inr (False, [], ''Missing required HTML tags: '' @ join '', '' missing_tags)
         else (case (index_of ''<body'' code_lower, index_of ''</body>'' code_lower) of
                 (Some i, Some j) \<Rightarrow>
                   if i > j
                   then Inr (False, [], ''Invalid HTML structure: closing body tag before opening'')
                   else Inr (True, ''HTML structure is valid'', [])
               | other \<Rightarrow> Inl (OtherException ''substring not found'')))"

subsection \<open>Structural scoring of a multi-file artifact\<close>

text \<open>The four components of \<open>_evaluate_multi_file_artifact\<close>, each with the points it
  appends to \<open>score_components\<close> and the messages it appends to \<open>issues\<close>.\<close>

definition quoted :: "string \<Rightarrow> string" where
  "quoted f = [CHR 0x27] @ f @ [CHR 0x27]"

definition entry_component :: "string \<Rightarrow> int list \<times> string list" where
  "entry_component ep =
     (if endswith ep ''.html'' then ([30], []) else ([], [''No HTML entry point found'']))"

definition link_component :: "files \<Rightarrow> string \<Rightarrow> int list \<times> string list" where
  "link_component fs ep =
     (case map_of fs ep of
        None \<Rightarrow> ([], [])
      | Some html_content \<Rightarrow>
          (let css_files = filter (\<lambda>f. endswith f ''.css'') (map fst fs);
               js_files = filter (\<lambda>f. endswith f ''.js'' \<or> endswith f ''.jsx'') (map fst fs);
               css_unlinked = filter (\<lambda>f. \<not> is_sub f html_content) css_files;
               js_unlinked = filter (\<lambda>f. \<not> is_sub f html_content) js_files;
               css_linked_correctly = (css_unlinked = []);
               js_linked_correctly = (js_unlinked = [])
           in ((if css_linked_correctly \<and> js_linked_correctly then [30]
                else if css_linked_correctly \<or> js_linked_correctly then [15]
                else []),
               map (\<lambda>f. ''CSS file '' @ quoted f @ '' not linked in HTML'') css_unlinked
               @ map (\<lambda>f. ''JS file '' @ quoted f @ '' not linked in HTML'') js_unlinked)))"

definition required_component :: "string list \<Rightarrow> string list \<Rightarrow> int list \<times> string list" where
  "required_component expected_files missing_files =
     (if missing_files = [] then ([20], [])
      else if length missing_files < length expected_files then ([10], [])
      else ([], [''Missing expected files: '' @ join '', '' missing_files]))"

definition structure_component :: "files \<Rightarrow> int list \<times> string list" where
  "structure_component fs =
     (if 1 < length fs \<and> length fs \<le> 10 then ([20], [])
      else if length fs > 10 then ([10], [''Excessive number of files (>10)''])
      else ([], []))"

definition evaluate_multi_file_artifact ::
  "string \<Rightarrow> question \<Rightarrow> model_response \<Rightarrow> artifact \<Rightarrow> evaluation" where
  "evaluate_multi_file_artifact now q response multi_file_artifact =
     (let fs = afiles multi_file_artifact;
          ep = entry_point multi_file_artifact;
          expected_files = (case metadata q ''expected_files'' of None \<Rightarrow> [] | Some l \<Rightarrow> l);
          missing_files = filter (\<lambda>f. f \<notin> set (map fst fs)) expected_files;
          c1 = entry_component ep;
          c2 = link_component fs ep;
          c3 = required_component expected_files missing_files;
          c4 = structure_component fs;
          score_components = fst c1 @ fst c2 @ fst c3 @ fst c4;
          issues = snd c1 @ snd c2 @ snd c3 @ snd c4;
          total_score = sum_list score_components;
          is_passed = (total_score \<ge> 70)
      in \<lparr>question_id = q_id q,
          ev_model_name = model_name response,
          score = of_int total_score,
          passed = is_passed,
          evaluation_type = ''code_execution_multi_file'',
          reasoning =
            (if is_passed
             then ''Multi-file application validated successfully. '' @ str_nat (length fs)
                  @ '' files generated and properly structured.''
             else ''Multi-file application has issues: ''
                  @ (if issues \<noteq> [] then join ''; '' issues else ''Score below threshold'')),
          details =
            [(''file_count'', DNat (length fs)),
             (''files'', DStrs (map fst fs)),
             (''entry_point'', DStr ep),
             (''missing_files'', DStrs missing_files),
             (''issues'', DStrs issues),
             (''score_components'', DInts score_components)],
          timestamp = now\<rparr>)"

subsection \<open>Extracting one code blob\<close>

text \<open>The loop of \<open>_extract_code\<close> over the fenced blocks: the state is the five lists
  \<open>html_blocks\<close>, \<open>css_blocks\<close>, \<open>js_blocks\<close>, \<open>python_blocks\<close>, \<open>other_blocks\<close>.  A block
  whose language tag is none of the known ones and is not empty matches no branch of the
  \<open>if\<close>/\<open>elif\<close> chain and is dropped: \<open>other_blocks\<close> only receives untagged blocks.\<close>

type_synonym blocks =
  "string list \<times> string list \<times> string list \<times> string list \<times> (string \<times> string) list"

fun categorize :: "blocks \<Rightarrow> string list \<Rightarrow> blocks" where
  "categorize (html_blocks, css_blocks, js_blocks, python_blocks, other_blocks) [lang0, code0] =
     (let lang = lower lang0; code = strip code0 in
      if code = [] then (html_blocks, css_blocks, js_blocks, python_blocks, other_blocks)
      else if lang \<in> set [''html'', ''htm''] \<or> is_sub ''<html'' (lower code)
              \<or> is_sub ''<!DOCTYPE'' code
      then (html_blocks @ [code], css_blocks, js_blocks, python_blocks, other_blocks)
      else if lang \<in> set [''css'']
      then (html_blocks, css_blocks @ [code], js_blocks, python_blocks, other_blocks)
      else if lang \<in> set [''javascript'', ''js'']
      then (html_blocks, css_blocks, js_blocks @ [code], python_blocks, other_blocks)
      else if lang \<in> set [''python'', ''py'']
      then (html_blocks, css_blocks, js_blocks, python_blocks @ [code], other_blocks)
      else if lang = []
      then (if is_sub ''<html'' (lower code) \<or> is_sub ''<!DOCTYPE'' code
            then (html_blocks @ [code], css_blocks, js_blocks, python_blocks, other_blocks)
            else if is_sub ''def '' code \<or> is_sub ''import '' code \<or> is_sub ''print('' code
            then (html_blocks, css_blocks, js_blocks, python_blocks @ [code], other_blocks)
            else if is_sub ''function'' code \<or> is_sub ''const '' code \<or> is_sub ''let '' code
                    \<or> is_sub ''var '' code
            then (html_blocks, css_blocks, js_blocks @ [code], python_blocks, other_blocks)
            else (html_blocks, css_blocks, js_blocks, python_blocks, other_blocks @ [(lang, code)]))
      else (html_blocks, css_blocks, js_blocks, python_blocks, other_blocks))"
| "categorize st g = st"

text \<open>A complete HTML document with the separately fenced styles and scripts injected.\<close>

definition inject_css :: "string list \<Rightarrow> string \<Rightarrow> string \<Rightarrow> string" where
  "inject_css css_blocks html result =
     (if css_blocks \<noteq> [] \<and> \<not> is_sub ''<style>'' (lower html)
      then (let css_content = join [NL] css_blocks;
                style_tag = ''<style>'' @ [NL] @ css_content @ [NL] @ ''</style>''
            in if is_sub ''</head>'' (lower html)
               then replace ''</head>'' (style_tag @ [NL] @ ''</head>'') result
               else replace ''<html>''
                      (''<html>'' @ [NL] @ ''<head>'' @ [NL] @ style_tag @ [NL] @ ''</head>'') result)
      else result)"

definition inject_js :: "string list \<Rightarrow> string \<Rightarrow> string \<Rightarrow> string" where
  "inject_js js_blocks html result =
     (if js_blocks \<noteq> [] \<and> \<not> is_sub ''<script>'' (lower html)
      then (let js_content = join [NL] js_blocks;
                script_tag = ''<script>'' @ [NL] @ js_content @ [NL] @ ''</script>''
            in if is_sub ''</body>'' (lower html)
               then replace ''</body>'' (script_tag @ [NL] @ ''</body>'') result
               else result @ [NL] @ script_tag)
      else result)"

text \<open>The two wrappers written as f-strings in the source.\<close>

definition wrap_partial_html :: "string \<Rightarrow> string \<Rightarrow> string \<Rightarrow> string" where
  "wrap_partial_html html_content css_content js_content =
     ''<!DOCTYPE html>'' @ [NL] @ ''<html>'' @ [NL] @ ''<head>'' @ [NL]
     @ ''    <meta charset='' @ [CHR 0x22] @ ''UTF-8'' @ [CHR 0x22] @ ''>'' @ [NL]
     @ ''    '' @ (if css_content \<noteq> [] then ''<style>'' @ css_content @ ''</style>'' else []) @ [NL]
     @ ''</head>'' @ [NL] @ ''<body>'' @ [NL]
     @ ''    '' @ html_content @ [NL]
     @ ''    '' @ (if js_content \<noteq> [] then ''<script>'' @ js_content @ ''</script>'' else []) @ [NL]
     @ ''</body>'' @ [NL] @ ''</html>''"

definition wrap_css_only :: "string \<Rightarrow> string" where
  "wrap_css_only css_content =
     ''<!DOCTYPE html>'' @ [NL] @ ''<html>'' @ [NL] @ ''<head>'' @ [NL]
     @ ''    <style>'' @ css_content @ ''</style>'' @ [NL]
     @ ''</head>'' @ [NL] @ ''<body>'' @ [NL]
     @ ''    <div>Styles loaded</div>'' @ [NL]
     @ ''</body>'' @ [NL] @ ''</html>''"

text \<open>What \<open>_extract_code\<close> returns from the categorised blocks, in its priority order:
  HTML, Python, JavaScript, CSS alone, an untagged block.\<close>

definition combine_blocks :: "blocks \<Rightarrow> string option \<times> string option" where
  "combine_blocks st =
     (case st of (html_blocks, css_blocks, js_blocks, python_blocks, other_blocks) \<Rightarrow>
      if html_blocks \<noteq> []
      then (case find (\<lambda>html. is_sub ''<html'' (lower html) \<or> is_sub ''<!DOCTYPE'' (lower html))
                   html_blocks of
              Some html \<Rightarrow>
                (Some (inject_js js_blocks html (inject_css css_blocks html html)), Some ''html'')
            | None \<Rightarrow>
                (Some (wrap_partial_html (join [NL] html_blocks) (join [NL] css_blocks)
                         (join [NL] js_blocks)),
                 Some ''html''))
      else if python_blocks \<noteq> [] then (Some (join [NL, NL] python_blocks), Some ''python'')
      else if js_blocks \<noteq> [] then (Some (join [NL, NL] js_blocks), Some ''javascript'')
      else if css_blocks \<noteq> [] then (Some (wrap_css_only (join [NL] css_blocks)), Some ''html'')
      else (case other_blocks of
              (lang, code) # rest \<Rightarrow> (Some code, Some (if lang \<noteq> [] then lang else ''unknown''))
            | [] \<Rightarrow> (None, None)))"

definition extract_code :: "string \<Rightarrow> string option \<times> string option" where
  "extract_code text =
     (if text = [] then (None, None)
      else
       (let matches = findall code_pattern1 2 text;
            matches = (if matches = [] then findall code_pattern2 2 text else matches)
        in if matches = []
           then (if is_sub ''<html'' (lower text) \<or> is_sub ''<!doctype html'' (lower text)
                 then (Some (strip text), Some ''html'')
                 else if is_sub ''def '' text \<or> is_sub ''import '' text \<or> is_sub ''class '' text
                 then (Some (strip text), Some ''python'')
                 else if is_sub ''function '' text \<or> is_sub ''const '' text \<or> is_sub ''let '' text
                         \<or> is_sub ''var '' text
                 then (Some (strip text), Some ''javascript'')
                 else (None, None))
           else combine_blocks (foldl categorize ([], [], [], [], []) matches)))"

subsection \<open>\<open>evaluate\<close>\<close>

text \<open>The outside world of one call of \<open>evaluate\<close>: the clock, whether the files of a
  multi-file artifact can be written, the world of the one execution the call may start,
  and the file system.\<close>

record world =
  clock :: string
  write_error :: "exc option"
  exec :: exec_world
  disk :: fs

definition opt_str :: "string option \<Rightarrow> string" where
  "opt_str s = (case s of None \<Rightarrow> ''None'' | Some x \<Rightarrow> x)"

text \<open>The three early results with score 0: a failed response, an empty response, no code
  found, and an unsupported language.\<close>

definition zero_evaluation ::
  "world \<Rightarrow> question \<Rightarrow> model_response \<Rightarrow> string \<Rightarrow> (string \<times> detail) list \<Rightarrow> evaluation" where
  "zero_evaluation w q response why ds =
     \<lparr>question_id = q_id q, ev_model_name = model_name response, score = 0, passed = False,
      evaluation_type = ''code_execution'', reasoning = why, details = ds, timestamp = clock w\<rparr>"

text \<open>Lines 120 to 154: the score from the execution result and the expected output.\<close>

definition score_execution ::
  "world \<Rightarrow> question \<Rightarrow> model_response \<Rightarrow> string \<Rightarrow> string \<Rightarrow> bool \<times> string \<times> string
     \<Rightarrow> evaluation" where
  "score_execution w q response code language res =
     (case res of (success, out, err) \<Rightarrow>
      (let base = (if success
                   then (100, ''Code executed successfully ('' @ language @ '')'', True)
                   else (0, ''Code execution failed: '' @ err, False));
           final =
             (if success \<and> truthy (expected_output q)
              then (if is_sub (strip (opt_str (expected_output q))) (strip out)
                    then (100, ''Code executed successfully and output matches expected'',
                          snd (snd base))
                    else (50, ''Code executed but output doesn't match expected'', False))
              else base)
       in \<lparr>question_id = q_id q, ev_model_name = model_name response,
           score = fst final, passed = snd (snd final),
           evaluation_type = ''code_execution'', reasoning = fst (snd final),
           details =
             [(''language'', DStr language),
              (''execution_success'', DBool success),
              (''output'', if out \<noteq> [] then DStr (take 1000 out) else DNone),
              (''error'', if err \<noteq> [] then DStr (take 1000 err) else DNone),
              (''code'', DStr (take 2000 code))],
           timestamp = clock w\<rparr>))"

definition no_code_evaluation :: "world \<Rightarrow> question \<Rightarrow> model_response \<Rightarrow> string \<Rightarrow> evaluation" where
  "no_code_evaluation w q response text =
     (let has_triple_backticks = is_sub fence text in
      zero_evaluation w q response
        (''No code block found in response. ''
         @ (if text = [] then ''Response is empty.''
            else if has_triple_backticks
            then ''Response contains ``` but code extraction failed. Check formatting.''
            else ''Response does not contain markdown code blocks (```).''))
        [(''has_code_fence'', DBool has_triple_backticks),
         (''response_length'', DNat (length text)),
         (''response_preview'', DStr (take 200 text))])"

text \<open>Lines 101 to 118 of \<open>evaluate\<close>: the dispatch on the language.  \<open>Inr None\<close> is
  the \<open>else\<close> branch (no execution; the language is unsupported), \<open>Inl\<close> an exception that
  leaves \<open>evaluate\<close>.\<close>

definition run_code ::
  "code_executor \<Rightarrow> world \<Rightarrow> string \<Rightarrow> string \<Rightarrow> exc + (bool \<times> string \<times> string) option" where
  "run_code self w code language =
     (if language \<in> set [''python'', ''py'']
      then Inr (Some (fst (execute_python self (exec w) code (disk w))))
      else if language \<in> set [''javascript'', ''js'']
      then Inr (Some (fst (execute_javascript self (exec w) code (disk w))))
      else if language \<in> set [''html'', ''htm'']
      then (case validate_html code of Inl e \<Rightarrow> Inl e | Inr res \<Rightarrow> Inr (Some res))
      else Inr None)"

text \<open>Lines 68 to 154 of \<open>evaluate\<close>: the single-blob path.\<close>

definition evaluate_single_blob ::
  "code_executor \<Rightarrow> world \<Rightarrow> question \<Rightarrow> model_response \<Rightarrow> string \<Rightarrow> exc + evaluation" where
  "evaluate_single_blob self w q response text =
     (case extract_code text of (code, language) \<Rightarrow>
      if \<not> truthy code then Inr (no_code_evaluation w q response text)
      else (case run_code self w (opt_str code) (opt_str language) of
              Inl e \<Rightarrow> Inl e
            | Inr None \<Rightarrow>
                Inr (zero_evaluation w q response
                       (''Unsupported language: '' @ opt_str language)
                       [(''language'', DStr (opt_str language))])
            | Inr (Some res) \<Rightarrow>
                Inr (score_execution w q response (opt_str code) (opt_str language) res)))"

definition evaluate ::
  "code_executor \<Rightarrow> world \<Rightarrow> question \<Rightarrow> model_response \<Rightarrow> exc + evaluation" where
  "evaluate self w q response =
     (if truthy (error response)
      then Inr (zero_evaluation w q response
                  (''Response failed with error: '' @ opt_str (error response))
                  [(''error'', DStr (opt_str (error response)))])
      else if \<not> truthy (response_text response)
      then Inr (zero_evaluation w q response ''Response text is empty or None''
                  [(''error'', DStr ''Empty response'')])
      else
       (let text = opt_str (response_text response);
            artifact_id = replace ''/'' ''_'' (''eval_'' @ q_id q @ ''_'' @ model_name response)
        in case extract_multi_file_artifact (temp_base_dir self) (write_error w) text artifact_id of
             Inl e \<Rightarrow> Inl e
           | Inr None \<Rightarrow> evaluate_single_blob self w q response text
           | Inr (Some art) \<Rightarrow>
               if atype art = multi_file
               then Inr (evaluate_multi_file_artifact (clock w) q response art)
               else evaluate_single_blob self w q response text))"

text \<open>The equations of the functions defined by general recursion are unfolded by hand
  where they are needed.\<close>

declare str_nat.simps [simp del] replace.simps [simp del] findall.simps [simp del]

lemma multi_file_score_eq:
  "score (evaluate_multi_file_artifact now q r art) =
     of_int (sum_list
       (fst (entry_component (entry_point art))
        @ fst (link_component (afiles art) (entry_point art))
        @ fst (required_component
                 (case metadata q ''expected_files'' of None \<Rightarrow> [] | Some l \<Rightarrow> l)
                 (filter (\<lambda>f. f \<notin> set (map fst (afiles art)))
                    (case metadata q ''expected_files'' of None \<Rightarrow> [] | Some l \<Rightarrow> l)))
        @ fst (structure_component (afiles art))))"
  unfolding evaluate_multi_file_artifact_def Let_def by (rule evaluation.select_convs)

lemma multi_file_passed_eq:
  "passed (evaluate_multi_file_artifact now q r art) =
     (70 \<le> sum_list
       (fst (entry_component (entry_point art))
        @ fst (link_component (afiles art) (entry_point art))
        @ fst (required_component
                 (case metadata q ''expected_files'' of None \<Rightarrow> [] | Some l \<Rightarrow> l)
                 (filter (\<lambda>f. f \<notin> set (map fst (afiles art)))
                    (case metadata q ''expected_files'' of None \<Rightarrow> [] | Some l \<Rightarrow> l)))
        @ fst (structure_component (afiles art))))"
  unfolding evaluate_multi_file_artifact_def Let_def by (rule evaluation.select_convs)

lemma multi_file_type: 
  "evaluation_type (evaluate_multi_file_artifact now q r art) = ''code_execution_multi_file''"
  unfolding evaluate_multi_file_artifact_def Let_def by (rule evaluation.select_convs)

lemma web_app_suffixes:
  "endswith ''index.html'' ''.html''" "\<not> endswith ''index.html'' ''.css''"
  "\<not> endswith ''index.html'' ''.js''" "\<not> endswith ''index.html'' ''.jsx''"
  "endswith ''styles.css'' ''.css''" "\<not> endswith ''styles.css'' ''.js''"
  "\<not> endswith ''styles.css'' ''.jsx''" "\<not> endswith ''app.js'' ''.css''"
  "endswith ''app.js'' ''.js''"
  by code_simp+

lemma three_files:
  assumes "distinct (map fst fs)"
    and "set (map fst fs) = {''index.html'', ''styles.css'', ''app.js''}"
  shows "length fs = 3"
proof -
  have "card (set (map fst fs)) = 3" using assms(2) by simp
  then show ?thesis using assms(1) distinct_card[of "map fst fs"] by simp
qed

lemma link_component_full:
  assumes "set (map fst fs) = {''index.html'', ''styles.css'', ''app.js''}"
    and "map_of fs ''index.html'' = Some html"
    and "is_sub ''styles.css'' html" and "is_sub ''app.js'' html"
  shows "link_component fs ''index.html'' = ([30], [])"
proof -
  have a: "\<forall>f \<in> set (map fst fs). endswith f ''.css'' \<longrightarrow> is_sub f html"
    using assms web_app_suffixes by auto
  have b: "\<forall>f \<in> set (map fst fs). (endswith f ''.js'' \<or> endswith f ''.jsx'') \<longrightarrow> is_sub f html"
    using assms web_app_suffixes by auto
  have c: "filter (\<lambda>f. \<not> is_sub f html) (filter (\<lambda>f. endswith f ''.css'') (map fst fs)) = []"
    using a by (auto simp: filter_empty_conv)
  have d: "filter (\<lambda>f. \<not> is_sub f html)
             (filter (\<lambda>f. endswith f ''.js'' \<or> endswith f ''.jsx'') (map fst fs)) = []"
    using b by (auto simp: filter_empty_conv)
  show ?thesis using assms(2) c d by (simp add: link_component_def Let_def)
qed

text \<open>
  Claim C2.  An artifact whose entry point is \<open>index.html\<close>, whose files are exactly
  \<open>index.html\<close>, \<open>styles.css\<close> and \<open>app.js\<close>, whose entry document contains both other file
  names, for a question that declares no expected files, scores 30 + 30 + 20 + 20 = 100 and
  passes.  For every artifact the score is the sum of the recorded score components, and
  the artifact passes exactly when that sum is at least 70.
\<close>

theorem multi_file_scoring:
  "(entry_point art = ''index.html'' \<and> distinct (map fst (afiles art))
      \<and> set (map fst (afiles art)) = {''index.html'', ''styles.css'', ''app.js''}
      \<and> map_of (afiles art) ''index.html'' = Some html
      \<and> is_sub ''styles.css'' html \<and> is_sub ''app.js'' html
      \<and> (metadata q ''expected_files'' = None \<or> metadata q ''expected_files'' = Some [])
    \<longrightarrow> score (evaluate_multi_file_artifact now q r art) = 30 + 30 + 20 + 20
        \<and> passed (evaluate_multi_file_artifact now q r art))
   \<and> (passed (evaluate_multi_file_artifact now q r art)
        \<longleftrightarrow> 70 \<le> score (evaluate_multi_file_artifact now q r art))"
proof (intro conjI impI)
  assume h: "entry_point art = ''index.html'' \<and> distinct (map fst (afiles art))
      \<and> set (map fst (afiles art)) = {''index.html'', ''styles.css'', ''app.js''}
      \<and> map_of (afiles art) ''index.html'' = Some html
      \<and> is_sub ''styles.css'' html \<and> is_sub ''app.js'' html
      \<and> (metadata q ''expected_files'' = None \<or> metadata q ''expected_files'' = Some [])"
  have ep: "entry_point art = ''index.html''" using h by blast
  have l: "length (afiles art) = 3" using h three_files by blast
  have lk: "link_component (afiles art) ''index.html'' = ([30], [])"
    using h link_component_full by blast
  have e: "entry_component ''index.html'' = ([30], [])"
    by (simp add: entry_component_def web_app_suffixes)
  have s: "structure_component (afiles art) = ([20], [])"
    using l by (simp add: structure_component_def)
  have m: "metadata q ''expected_files'' = None \<or> metadata q ''expected_files'' = Some []"
    using h by blast
  have ex: "(case metadata q ''expected_files'' of None \<Rightarrow> [] | Some l \<Rightarrow> l) = []"
    using m by (rule disjE) simp_all
  have rq: "required_component [] [] = ([20], [])"
    by (simp add: required_component_def)
  show "score (evaluate_multi_file_artifact now q r art) = 30 + 30 + 20 + 20"
    by (simp add: multi_file_score_eq ep lk e s ex rq)
  show "passed (evaluate_multi_file_artifact now q r art)"
    by (simp add: multi_file_passed_eq ep lk e s ex rq)
next
  show "passed (evaluate_multi_file_artifact now q r art)
          \<longleftrightarrow> 70 \<le> score (evaluate_multi_file_artifact now q r art)"
    unfolding multi_file_score_eq multi_file_passed_eq
    by (metis of_int_le_iff of_int_numeral)
qed

theorem multi_file_scoring_witness:
  "score (evaluate_multi_file_artifact ''t''
            \<lparr>q_id = ''q1'', expected_output = None, metadata = Map.empty\<rparr>
            \<lparr>model_name = ''m'', response_text = None, error = None\<rparr>
            \<lparr>atype = multi_file, entry_point = ''index.html'',
             afiles = [(''index.html'', ''styles.css app.js''), (''styles.css'', ''a''),
                       (''app.js'', ''b'')],
             directory = None, file_count = Some 3, content = None\<rparr>) = 100
   \<and> passed (evaluate_multi_file_artifact ''t''
            \<lparr>q_id = ''q1'', expected_output = None, metadata = Map.empty\<rparr>
            \<lparr>model_name = ''m'', response_text = None, error = None\<rparr>
            \<lparr>atype = multi_file, entry_point = ''index.html'',
             afiles = [(''index.html'', ''styles.css app.js''), (''styles.css'', ''a''),
                       (''app.js'', ''b'')],
             directory = None, file_count = Some 3, content = None\<rparr>)"
  using multi_file_scoring
    [of "\<lparr>atype = multi_file, entry_point = ''index.html'',
          afiles = [(''index.html'', ''styles.css app.js''), (''styles.css'', ''a''),
                    (''app.js'', ''b'')],
          directory = None, file_count = Some 3, content = None\<rparr>"
        "''styles.css app.js''"
        "\<lparr>q_id = ''q1'', expected_output = None, metadata = Map.empty\<rparr>"
        "''t''" "\<lparr>model_name = ''m'', response_text = None, error = None\<rparr>"]
  by simp

subsection \<open>Scores of the single-blob path\<close>

lemma zero_evaluation_sel:
  "score (zero_evaluation w q r why ds) = 0" "passed (zero_evaluation w q r why ds) = False"
  "reasoning (zero_evaluation w q r why ds) = why"
  "evaluation_type (zero_evaluation w q r why ds) = ''code_execution''"
  by (simp_all add: zero_evaluation_def)

lemma no_code_evaluation_sel:
  "score (no_code_evaluation w q r text) = 0" "passed (no_code_evaluation w q r text) = False"
  by (simp_all add: no_code_evaluation_def zero_evaluation_sel Let_def)

lemma score_execution_sel:
  "score (score_execution w q r code language (success, out, err)) =
     (if success then (if truthy (expected_output q)
                          \<and> \<not> is_sub (strip (opt_str (expected_output q))) (strip out)
                       then 50 else 100)
      else 0)"
  "passed (score_execution w q r code language (success, out, err)) =
     (success \<and> (truthy (expected_output q)
                   \<longrightarrow> is_sub (strip (opt_str (expected_output q))) (strip out)))"
  by (simp_all add: score_execution_def Let_def)

lemma is_sub_Nil: "is_sub [] s"
  by (induction s) simp_all

lemma single_blob_scores:
  assumes "evaluate_single_blob self w q r text = Inr ev"
  shows "score ev \<in> {0, 50, 100} \<and> (passed ev \<longleftrightarrow> score ev = 100)"
proof -
  obtain code language where cl: "extract_code text = (code, language)" by (cases "extract_code text")
  show ?thesis
  proof (cases "truthy code")
    case False
    then have "ev = no_code_evaluation w q r text"
      using assms cl by (simp add: evaluate_single_blob_def)
    then show ?thesis by (simp add: no_code_evaluation_sel)
  next
    case True
    show ?thesis
    proof (cases "run_code self w (opt_str code) (opt_str language)")
      case (Inl e)
      then show ?thesis using assms cl True by (simp add: evaluate_single_blob_def)
    next
      case (Inr res)
      show ?thesis
      proof (cases res)
        case None
        then have "ev = zero_evaluation w q r (''Unsupported language: '' @ opt_str language)
                       [(''language'', DStr (opt_str language))]"
          using assms cl True Inr by (simp add: evaluate_single_blob_def)
        then show ?thesis by (simp add: zero_evaluation_sel)
      next
        case (Some t)
        obtain success out err where t: "t = (success, out, err)" by (cases t)
        have "ev = score_execution w q r (opt_str code) (opt_str language) (success, out, err)"
          using assms cl True Inr Some t by (simp add: evaluate_single_blob_def)
        then show ?thesis by (simp add: score_execution_sel)
      qed
    qed
  qed
qed

text \<open>
  Claim C10.  Every evaluation that \<open>evaluate\<close> returns with the type \<open>code_execution\<close>
  (the single-blob path and the early exits, not the multi-file structural path) has a
  score of 0, 50 or 100, and it has passed exactly when the score is 100.
\<close>

theorem single_blob_score_set:
  assumes "evaluate self w q r = Inr ev" and "evaluation_type ev = ''code_execution''"
  shows "score ev \<in> {0, 50, 100} \<and> (passed ev \<longleftrightarrow> score ev = 100)"
proof (cases "truthy (error r)")
  case True
  then have "ev = zero_evaluation w q r (''Response failed with error: '' @ opt_str (error r))
                  [(''error'', DStr (opt_str (error r)))]"
    using assms(1) by (simp add: evaluate_def)
  then show ?thesis by (simp add: zero_evaluation_sel)
next
  case False
  note ne = this
  show ?thesis
  proof (cases "truthy (response_text r)")
    case False
    then have "ev = zero_evaluation w q r ''Response text is empty or None''
                  [(''error'', DStr ''Empty response'')]"
      using assms(1) ne by (simp add: evaluate_def)
    then show ?thesis by (simp add: zero_evaluation_sel)
  next
    case True
    let ?text = "opt_str (response_text r)"
    let ?x = "extract_multi_file_artifact (temp_base_dir self) (write_error w) ?text
                (replace ''/'' ''_'' (''eval_'' @ q_id q @ ''_'' @ model_name r))"
    have ev: "(case ?x of Inl e \<Rightarrow> Inl e
              | Inr None \<Rightarrow> evaluate_single_blob self w q r ?text
              | Inr (Some art) \<Rightarrow>
                  if atype art = multi_file
                  then Inr (evaluate_multi_file_artifact (clock w) q r art)
                  else evaluate_single_blob self w q r ?text) = Inr ev"
      using assms(1) ne True by (simp add: evaluate_def Let_def)
    show ?thesis
    proof (cases ?x)
      case (Inl e)
      then show ?thesis using ev by simp
    next
      case (Inr art)
      show ?thesis
      proof (cases art)
        case None
        then show ?thesis using ev Inr single_blob_scores by simp
      next
        case (Some a)
        show ?thesis
        proof (cases "atype a = multi_file")
          case True
          then have "ev = evaluate_multi_file_artifact (clock w) q r a"
            using ev Inr Some by simp
          then have "evaluation_type ev = ''code_execution_multi_file''"
            by (simp add: multi_file_type)
          then show ?thesis using assms(2) by simp
        next
          case False
          then show ?thesis using ev Inr Some single_blob_scores by simp
        qed
      qed
    qed
  qed
qed

subsection \<open>Sample inputs\<close>

text \<open>The response of the spec's scenario: a sentence and one fenced Python block.\<close>

definition hi_text :: string where
  "hi_text = ''Here:'' @ [NL] @ ''```python'' @ [NL] @ ''print('' @ [CHR 0x27] @ ''hi''
             @ [CHR 0x27] @ '')'' @ [NL] @ ''```''"

definition hi_code :: string where
  "hi_code = ''print('' @ [CHR 0x27] @ ''hi'' @ [CHR 0x27] @ '')''"

text \<open>A world in which everything works: the interpreter prints \<open>hi\<close> and exits with 0.\<close>

definition calm_exec :: exec_world where
  "calm_exec = \<lparr>node_check = None, mkdtemp = Inr ''/tmp/benchmark_exec_1'', write_script = None,
                 run = Inr (0, ''hi'' @ [NL], []), run_effect = (\<lambda>paths. paths),
                 rmtree_ok = True\<rparr>"

definition calm_world :: world where
  "calm_world = \<lparr>clock = ''2025-01-01T00:00:00'', write_error = None, exec = calm_exec, disk = {}\<rparr>"

definition executor10 :: code_executor where
  "executor10 = \<lparr>timeout = 10, temp_base_dir = ''/tmp/llm_bench_artifacts''\<rparr>"

definition hi_question :: question where
  "hi_question = \<lparr>q_id = ''q1'', expected_output = Some ''hi'', metadata = Map.empty\<rparr>"

definition hi_response :: model_response where
  "hi_response = \<lparr>model_name = ''m'', response_text = Some hi_text, error = None\<rparr>"

lemma hi_text_files: "extract_files_from_response hi_text = []"
  by code_simp

lemma hi_text_code: "extract_code hi_text = (Some hi_code, Some ''python'')"
  by code_simp

lemma hi_text_not_empty: "hi_text \<noteq> []"
  by (simp add: hi_text_def)

lemma hi_code_not_empty: "hi_code \<noteq> []"
  by (simp add: hi_code_def)

lemma hi_artifact:
  "extract_multi_file_artifact d we hi_text aid = Inr None"
  by (simp add: extract_multi_file_artifact_def hi_text_files)

lemma hi_run: "run_code executor10 calm_world hi_code ''python'' = Inr (Some (True, ''hi'' @ [NL], []))"
  by (simp add: run_code_def execute_python_def run_in_temp_dir_def calm_world_def calm_exec_def)

lemma hi_evaluate:
  "evaluate executor10 calm_world hi_question hi_response =
     Inr (score_execution calm_world hi_question hi_response hi_code ''python''
            (True, ''hi'' @ [NL], []))"
  by (simp add: evaluate_def hi_response_def opt_str_def hi_text_not_empty hi_artifact
        evaluate_single_blob_def hi_text_code hi_code_not_empty hi_run)

lemma score_execution_type:
  "evaluation_type (score_execution w q r code language res) = ''code_execution''"
  by (cases res) (simp add: score_execution_def Let_def)

theorem single_blob_score_set_witness:
  "\<exists>ev. evaluate executor10 calm_world hi_question hi_response = Inr ev
       \<and> evaluation_type ev = ''code_execution''
       \<and> score ev \<in> {0, 50, 100} \<and> (passed ev \<longleftrightarrow> score ev = 100)"
  using single_blob_score_set [OF hi_evaluate score_execution_type] hi_evaluate score_execution_type
  by blast

text \<open>
  Claim C3.  On the single-blob path, when the execution succeeds with captured output
  \<open>out\<close> and the question declares the expected output \<open>hint\<close>: the score is 100 if the
  stripped hint occurs in the stripped output, and otherwise the score is 50 and the
  evaluation has not passed.
\<close>

theorem expected_output_scoring:
  assumes "\<not> truthy (error r)" and "response_text r = Some text" and "text \<noteq> []"
    and "extract_multi_file_artifact (temp_base_dir self) (write_error w) text
           (replace ''/'' ''_'' (''eval_'' @ q_id q @ ''_'' @ model_name r)) = Inr art"
    and "case art of None \<Rightarrow> True | Some a \<Rightarrow> atype a = single_file"
    and "extract_code text = (Some code, Some language)" and "code \<noteq> []"
    and "run_code self w code language = Inr (Some (True, out, err))"
    and "expected_output q = Some hint"
  shows "\<exists>ev. evaluate self w q r = Inr ev
            \<and> (if is_sub (strip hint) (strip out) then score ev = 100
                else score ev = 50 \<and> \<not> passed ev)"
proof -
  have sb: "evaluate self w q r = evaluate_single_blob self w q r text"
    using assms(1-5) by (cases art) (simp_all add: evaluate_def opt_str_def)
  have ev: "evaluate_single_blob self w q r text =
              Inr (score_execution w q r code language (True, out, err))"
    using assms(6-8) by (simp add: evaluate_single_blob_def opt_str_def)
  have sc: "if is_sub (strip hint) (strip out)
            then score (score_execution w q r code language (True, out, err)) = 100
            else score (score_execution w q r code language (True, out, err)) = 50
                 \<and> \<not> passed (score_execution w q r code language (True, out, err))"
  proof (cases "hint = []")
    case True
    then show ?thesis using assms(9) by (simp add: score_execution_sel opt_str_def strip_def is_sub_Nil)
  next
    case False
    then show ?thesis using assms(9) by (simp add: score_execution_sel opt_str_def)
  qed
  show ?thesis using sb ev sc by simp
qed

theorem expected_output_scoring_witness:
  "\<exists>ev. evaluate executor10 calm_world hi_question hi_response = Inr ev \<and> score ev = 100"
proof -
  have h1: "\<not> truthy (error hi_response)" by (simp add: hi_response_def)
  have h2: "response_text hi_response = Some hi_text" by (simp add: hi_response_def)
  have h5: "case (None :: artifact option) of None \<Rightarrow> True | Some a \<Rightarrow> atype a = single_file"
    by simp
  have h9: "expected_output hi_question = Some ''hi''" by (simp add: hi_question_def)
  have sub: "is_sub (strip ''hi'') (strip (''hi'' @ [NL]))" by code_simp
  show ?thesis
    using expected_output_scoring [OF h1 h2 hi_text_not_empty hi_artifact h5 hi_text_code
        hi_code_not_empty hi_run h9] sub
    by simp
qed

section \<open>Cleanup of the execution directory\<close>

lemma cleanup_removes:
  "rmtree_ok w \<Longrightarrow> d \<noteq> [] \<Longrightarrow> d \<notin> cleanup w (Some d) paths"
  by (simp add: cleanup_def)

lemma run_in_temp_dir_removes:
  assumes "mkdtemp w = Inr d" and "d \<noteq> []" and "rmtree_ok w"
  shows "d \<notin> snd (run_in_temp_dir handler w fs0)"
proof (cases "write_script w")
  case (Some e)
  then show ?thesis using assms by (simp add: run_in_temp_dir_def cleanup_removes)
next
  case None
  show ?thesis
  proof (cases "run w")
    case (Inl e)
    then show ?thesis using assms None by (simp add: run_in_temp_dir_def cleanup_removes)
  next
    case (Inr res)
    obtain returncode out err where "res = (returncode, out, err)" by (cases res)
    then show ?thesis using assms None Inr by (simp add: run_in_temp_dir_def cleanup_removes)
  qed
qed

text \<open>
  Claim C1, as the code has it.  For a Python or JavaScript execution whose temporary
  directory \<open>d\<close> was created by \<open>mkdtemp\<close>, the directory no longer exists when the call
  returns, whatever the outcome of writing the script and of running the interpreter
  (success, nonzero exit, timeout, interpreter not found, any other exception), provided
  \<open>shutil.rmtree\<close> itself succeeds.
\<close>

theorem temp_dir_removed_if_rmtree_succeeds:
  assumes "mkdtemp w = Inr d" and "d \<noteq> []" and "rmtree_ok w"
  shows "d \<notin> snd (execute_python self w code fs0)
       \<and> (node_check w = None \<longrightarrow> d \<notin> snd (execute_javascript self w code fs0))"
  using assms by (simp add: execute_python_def execute_javascript_def run_in_temp_dir_removes)

theorem temp_dir_removed_witness:
  "''/tmp/benchmark_exec_1'' \<notin> snd (execute_python executor10 calm_exec hi_code {})
   \<and> ''/tmp/benchmark_exec_1'' \<notin> snd (execute_javascript executor10 calm_exec hi_code {})"
  using temp_dir_removed_if_rmtree_succeeds
          [of calm_exec "''/tmp/benchmark_exec_1''" executor10 hi_code "{}"]
  by (simp add: calm_exec_def)

text \<open>A world in which the interpreter succeeds and \<open>shutil.rmtree\<close> raises: the
  \<open>except: pass\<close> of the \<open>finally\<close> block swallows the failure, the call returns the
  successful result, and the directory is still there.\<close>

definition stuck_exec :: exec_world where
  "stuck_exec = calm_exec\<lparr>rmtree_ok := False\<rparr>"

theorem temp_dir_left_behind:
  "mkdtemp stuck_exec = Inr ''/tmp/benchmark_exec_1''
   \<and> execute_python executor10 stuck_exec hi_code {}
       = ((True, ''hi'' @ [NL], []), {''/tmp/benchmark_exec_1''})
   \<and> ''/tmp/benchmark_exec_1'' \<in> snd (execute_python executor10 stuck_exec hi_code {})"
  by (simp add: stuck_exec_def calm_exec_def execute_python_def run_in_temp_dir_def cleanup_def)

section \<open>An unsupported language tag\<close>

text \<open>A response with one fenced block tagged \<open>prolog\<close> and no other code.\<close>

definition prolog_text :: string where
  "prolog_text = ''Here:'' @ [NL] @ ''```prolog'' @ [NL] @ ''hello.'' @ [NL] @ ''```''"

lemma prolog_text_files: "extract_files_from_response prolog_text = []"
  by code_simp

lemma prolog_text_blocks: "findall code_pattern1 2 prolog_text = [[''prolog'', ''hello.'' @ [NL]]]"
  by code_simp

lemma prolog_text_code: "extract_code prolog_text = (None, None)"
  by code_simp

lemma prolog_text_fence: "is_sub fence prolog_text" "prolog_text \<noteq> []"
  by code_simp+

text \<open>
  Claim C4 at this input.  \<open>pattern1\<close> finds the block with its tag \<open>prolog\<close>, but the
  \<open>if\<close>/\<open>elif\<close> chain of \<open>_extract_code\<close> stores a block in \<open>other_blocks\<close> only under
  \<open>elif not lang\<close>: the tagged block is dropped, \<open>_extract_code\<close> returns no code, and
  \<open>evaluate\<close> reports that no code block was found (score 0) instead of
  \<open>Unsupported language: prolog\<close>.
\<close>

theorem prolog_block_reported_as_no_code:
  "evaluate self w q \<lparr>model_name = m, response_text = Some prolog_text, error = None\<rparr>
     = Inr (no_code_evaluation w q
              \<lparr>model_name = m, response_text = Some prolog_text, error = None\<rparr> prolog_text)
   \<and> reasoning (no_code_evaluation w q
              \<lparr>model_name = m, response_text = Some prolog_text, error = None\<rparr> prolog_text)
       = ''No code block found in response. Response contains ``` but code extraction failed. Check formatting.''
   \<and> reasoning (no_code_evaluation w q
              \<lparr>model_name = m, response_text = Some prolog_text, error = None\<rparr> prolog_text)
       \<noteq> ''Unsupported language: prolog''
   \<and> score (no_code_evaluation w q
              \<lparr>model_name = m, response_text = Some prolog_text, error = None\<rparr> prolog_text) = 0"
  by (simp add: evaluate_def opt_str_def prolog_text_fence extract_multi_file_artifact_def
        prolog_text_files evaluate_single_blob_def prolog_text_code no_code_evaluation_def
        zero_evaluation_def)

section \<open>Job runner (\<open>job_runner.py\<close>)\<close>

subsection \<open>Leaderboard\<close>

text \<open>One result of the judge for one model and one question: \<open>result['score']\<close> and
  \<open>result.get('passed', False)\<close> (\<open>None\<close> when the key is absent).

  Scores are Python numbers.  A finite float is modelled as the real number it denotes, and
  the comparison of floats is the comparison of these reals.  The results of \<open>+\<close> and \<open>/\<close>
  are rounded by the machine; the model does not fix the rounding: the two operations are
  the parameters \<open>fadd\<close> and \<open>fdiv\<close>, and every theorem holds for all of them.  Infinities
  and NaN are outside the model.  \<open>/\<close> raises on a zero divisor.\<close>

record arith =
  fadd :: "real \<Rightarrow> real \<Rightarrow> real"
  fdiv :: "real \<Rightarrow> real \<Rightarrow> real"

text \<open>\<open>sum(xs)\<close>: the additions from the left, starting at 0.\<close>

definition py_sum :: "arith \<Rightarrow> real list \<Rightarrow> real" where
  "py_sum ar xs = foldl (fadd ar) 0 xs"

record result =
  r_score :: real
  r_passed :: "bool option"

record model_data =
  scores :: "real list"
  passed_count :: nat

record leaderboard_entry =
  lb_model_name :: string
  average_score :: real
  total_questions :: nat
  lb_passed_count :: nat
  pass_rate :: real

definition py_div :: "arith \<Rightarrow> real \<Rightarrow> nat \<Rightarrow> exc + real" where
  "py_div ar x n =
     (if n = 0 then Inl (OtherException ''division by zero'') else Inr (fdiv ar x (real n)))"

text \<open>The body of the inner loop of \<open>_calculate_leaderboard\<close>: create the model's record on
  first sight, append the score, count a pass.\<close>

definition add_result ::
  "(string \<times> model_data) list \<Rightarrow> string \<times> result \<Rightarrow> (string \<times> model_data) list" where
  "add_result model_scores mr =
     (case mr of (name, res) \<Rightarrow>
      (let d = (case map_of model_scores name of
                  None \<Rightarrow> \<lparr>scores = [], passed_count = 0\<rparr>
                | Some d0 \<Rightarrow> d0)
       in AList.update name
            \<lparr>scores = scores d @ [r_score res],
             passed_count = passed_count d + (if r_passed res = Some True then 1 else 0)\<rparr>
            model_scores))"

definition aggregate ::
  "(string \<times> (string \<times> result) list) list \<Rightarrow> (string \<times> model_data) list" where
  "aggregate all_results =
     foldl (\<lambda>model_scores (question_id, question_results).
              foldl add_result model_scores question_results) [] all_results"

text \<open>One leaderboard entry: the two guarded divisions \<open>x / len(scores) if scores else 0\<close>.\<close>

definition build_entry :: "arith \<Rightarrow> string \<times> model_data \<Rightarrow> exc + leaderboard_entry" where
  "build_entry ar md =
     (case md of (name, d) \<Rightarrow>
      (case (if scores d \<noteq> [] then py_div ar (py_sum ar (scores d)) (length (scores d))
             else Inr 0) of
         Inl e \<Rightarrow> Inl e
       | Inr avg \<Rightarrow>
          (case (if scores d \<noteq> [] then py_div ar (real (passed_count d)) (length (scores d))
                 else Inr 0) of
             Inl e \<Rightarrow> Inl e
           | Inr rate \<Rightarrow>
               Inr \<lparr>lb_model_name = name, average_score = avg,
                    total_questions = length (scores d),
                    lb_passed_count = passed_count d, pass_rate = rate\<rparr>)))"

fun build_entries :: "arith \<Rightarrow> (string \<times> model_data) list \<Rightarrow> exc + leaderboard_entry list" where
  "build_entries ar [] = Inr []"
| "build_entries ar (md # rest) =
     (case build_entry ar md of
        Inl e \<Rightarrow> Inl e
      | Inr entry \<Rightarrow>
          (case build_entries ar rest of
             Inl e \<Rightarrow> Inl e
           | Inr entries \<Rightarrow> Inr (entry # entries)))"

text \<open>\<open>leaderboard.sort(key=lambda x: x['average_score'], reverse=True)\<close>: a stable sort
  into descending order of the key.\<close>

definition calculate_leaderboard ::
  "arith \<Rightarrow> (string \<times> (string \<times> result) list) list \<Rightarrow> exc + leaderboard_entry list" where
  "calculate_leaderboard ar all_results =
     (case build_entries ar (aggregate all_results) of
        Inl e \<Rightarrow> Inl e
      | Inr leaderboard \<Rightarrow> Inr (sort_key (\<lambda>x. - average_score x) leaderboard))"

subsection \<open>Jobs, tasks and the registry\<close>

datatype job_status = PENDING | RUNNING | COMPLETED | FAILED | CANCELLED

record job_progress =
  current :: nat
  total :: nat
  current_question :: string
  p_status :: job_status
  p_error :: "string option"

record job =
  job_id :: string
  run_ids :: "string list"
  question_ids :: "string list"
  created_at :: string
  status :: job_status
  progress :: job_progress
  results_path :: "string option"

text \<open>
  Job objects are shared and mutated in place, so they live in a store: \<open>heap\<close> is the list
  of all job objects ever created and an address is an index into it.  \<open>jobs\<close> is the
  registry \<open>self.jobs\<close> (job id to object) and \<open>running_tasks\<close> is \<open>self.running_tasks\<close>
  (job id to task).  A task is the coroutine \<open>run_job(job_id, ...)\<close> wrapped by
  \<open>asyncio.create_task\<close>: it has not started (\<open>Created\<close>), is suspended at its only
  \<open>await\<close>, the \<open>asyncio.gather\<close> (\<open>AtGather\<close>), or is over (\<open>Done\<close>); \<open>job_ref\<close> is its
  local variable \<open>job\<close>, and \<open>must_cancel\<close> records a pending \<open>task.cancel()\<close>.
\<close>

datatype task_phase = Created | AtGather | Done

record task =
  t_job_id :: string
  phase :: task_phase
  job_ref :: "nat option"
  must_cancel :: bool

record runner =
  results_dir :: string
  heap :: "job list"
  jobs :: "string \<rightharpoonup> nat"
  tasks :: "task list"
  running_tasks :: "string \<rightharpoonup> nat"

definition new_runner :: "string \<Rightarrow> runner" where
  "new_runner dir =
     \<lparr>results_dir = dir, heap = [], jobs = Map.empty, tasks = [], running_tasks = Map.empty\<rparr>"

text \<open>The job object at an address, \<open>None\<close> outside the store.\<close>

definition job_at :: "runner \<Rightarrow> nat \<Rightarrow> job option" where
  "job_at r a = (if a < length (heap r) then Some (heap r ! a) else None)"

definition set_status :: "job_status \<Rightarrow> job \<Rightarrow> job" where
  "set_status s j = j\<lparr>status := s, progress := (progress j)\<lparr>p_status := s\<rparr>\<rparr>"

text \<open>\<open>create_job\<close>; \<open>stamp\<close> is \<open>datetime.now().strftime(...)\<close> and \<open>created\<close> is
  \<open>datetime.now().isoformat()\<close>.\<close>

definition create_job ::
  "string \<Rightarrow> string \<Rightarrow> string list \<Rightarrow> string list \<Rightarrow> runner \<Rightarrow> string \<times> runner" where
  "create_job stamp created rids qids r =
     (let jid = ''comp_judge_'' @ stamp;
          j = \<lparr>job_id = jid, run_ids = rids, question_ids = qids, created_at = created,
               status = PENDING,
               progress = \<lparr>current = 0, total = length qids, current_question = [],
                            p_status = PENDING, p_error = None\<rparr>,
               results_path = None\<rparr>
      in (jid, r\<lparr>heap := heap r @ [j], jobs := (jobs r)(jid \<mapsto> length (heap r))\<rparr>))"

text \<open>\<open>start_job\<close>: create the task and register it; nothing of the coroutine runs yet.\<close>

definition start_job :: "string \<Rightarrow> runner \<Rightarrow> runner" where
  "start_job jid r =
     r\<lparr>tasks := tasks r @ [\<lparr>t_job_id = jid, phase = Created, job_ref = None, must_cancel = False\<rparr>],
       running_tasks := (running_tasks r)(jid \<mapsto> length (tasks r))\<rparr>"

text \<open>\<open>task.cancel()\<close>: a request, without effect on a task that is over.\<close>

definition request_cancel :: "task \<Rightarrow> task" where
  "request_cancel t = (if phase t = Done then t else t\<lparr>must_cancel := True\<rparr>)"

text \<open>\<open>cancel_job\<close>.  \<open>save_err\<close> is the exception \<open>_save_job_metadata\<close> raises when it
  writes the file (\<open>None\<close> when the write succeeds); it writes only if the job has a
  results path.\<close>

definition cancel_job :: "exc option \<Rightarrow> string \<Rightarrow> runner \<Rightarrow> (exc + bool) \<times> runner" where
  "cancel_job save_err jid r =
     (case jobs r jid of
        None \<Rightarrow> (Inr False, r)
      | Some a \<Rightarrow>
         (case job_at r a of
            None \<Rightarrow> (Inr False, r)
          | Some j \<Rightarrow>
             if status j \<noteq> RUNNING then (Inr False, r)
             else (case running_tasks r jid of
                     None \<Rightarrow> (Inr False, r)
                   | Some t \<Rightarrow>
                      (let r' = r\<lparr>tasks := (tasks r)[t := request_cancel (tasks r ! t)],
                                   heap := (heap r)[a := set_status CANCELLED j]\<rparr>
                       in case (if truthy (results_path j) then save_err else None) of
                            Some e \<Rightarrow> (Inl e, r')
                          | None \<Rightarrow> (Inr True, r')))))"

subsection \<open>The task body \<open>run_job\<close>\<close>

text \<open>What the outside world does during one scheduling step of \<open>run_job\<close>: errors of
  creating the results directory, of saving the metadata after that, of the remaining
  setup before the \<open>await\<close>; the list \<open>asyncio.gather(..., return_exceptions=True)\<close>
  returns (an exception, \<open>None\<close> for a skipped question, or the question's results); the
  error of writing \<open>leaderboard.json\<close>; the error of saving the metadata of the completed
  job; and the machine's float arithmetic.\<close>

record step_world =
  mkdir_error :: "exc option"
  save_error :: "exc option"
  setup_error :: "exc option"
  gathered :: "(exc + (string \<times> result) list option) list"
  leaderboard_error :: "exc option"
  completed_save_error :: "exc option"
  float_arith :: arith

text \<open>The \<open>except Exception\<close> handler of \<open>run_job\<close>.\<close>

definition fail_job :: "exc \<Rightarrow> job \<Rightarrow> job" where
  "fail_job e j =
     j\<lparr>status := FAILED, progress := (progress j)\<lparr>p_status := FAILED, p_error := Some (exc_str e)\<rparr>\<rparr>"

text \<open>From the start of the \<open>try\<close> to the \<open>await\<close>: the new job object, and whether the
  \<open>await\<close> was reached.\<close>

definition run_job_begin :: "string \<Rightarrow> step_world \<Rightarrow> job \<Rightarrow> job \<times> bool" where
  "run_job_begin dir sw j =
     (let j1 = set_status RUNNING j in
      case mkdir_error sw of
        Some e \<Rightarrow> (fail_job e j1, False)
      | None \<Rightarrow>
         (let j2 = j1\<lparr>results_path := Some (dir @ ''/comparative_judge/'' @ job_id j)\<rparr> in
          case save_error sw of
            Some e \<Rightarrow> (fail_job e j2, False)
          | None \<Rightarrow>
             (case setup_error sw of
                Some e \<Rightarrow> (fail_job e j2, False)
              | None \<Rightarrow> (j2, True))))"

text \<open>The loop over \<open>zip(job.question_ids, results_list)\<close>.\<close>

fun process_results ::
  "job \<times> (string \<times> (string \<times> result) list) list \<Rightarrow> nat
     \<Rightarrow> (string \<times> (exc + (string \<times> result) list option)) list
     \<Rightarrow> job \<times> (string \<times> (string \<times> result) list) list" where
  "process_results (j, all_results) i [] = (j, all_results)"
| "process_results (j, all_results) i ((qid, res) # rest) =
     (let j' = j\<lparr>progress := (progress j)\<lparr>current := i + 1, current_question := qid\<rparr>\<rparr> in
      process_results
        (j', case res of
               Inl e \<Rightarrow> all_results
             | Inr None \<Rightarrow> all_results
             | Inr (Some rs) \<Rightarrow> AList.update qid rs all_results)
        (i + 1) rest)"

text \<open>From the return of the \<open>await\<close> to the end of \<open>run_job\<close>.\<close>

definition run_job_finish :: "step_world \<Rightarrow> job \<Rightarrow> job" where
  "run_job_finish sw j =
     (case process_results (j, []) 0 (zip (question_ids j) (gathered sw)) of
        (j1, all_results) \<Rightarrow>
          (case calculate_leaderboard (float_arith sw) all_results of
             Inl e \<Rightarrow> fail_job e j1
           | Inr leaderboard \<Rightarrow>
              (case leaderboard_error sw of
                 Some e \<Rightarrow> fail_job e j1
               | None \<Rightarrow>
                  (let j2 = (set_status COMPLETED j1)
                              \<lparr>progress := (progress (set_status COMPLETED j1))
                                  \<lparr>current := length (question_ids j1)\<rparr>\<rparr>
                   in case completed_save_error sw of
                        Some e \<Rightarrow> fail_job e j2
                      | None \<Rightarrow> j2))))"

text \<open>One scheduling step of a task.  A cancelled task raises \<open>CancelledError\<close> where it
  starts or resumes; \<open>CancelledError\<close> is no \<open>Exception\<close> (Python 3.8 and later), so the
  handler of \<open>run_job\<close> does not run and the job object is left as it is.  A task whose job
  id is not registered raises \<open>ValueError\<close> before the \<open>try\<close>.

  The only \<open>await\<close> of \<open>run_job\<close> is \<open>await asyncio.gather(*tasks, ...)\<close>.  With at least
  one question the gathered future is pending and the task is suspended there.  For a job
  without questions \<open>asyncio.gather()\<close> returns a future that is already done, the \<open>await\<close>
  does not suspend, and the same step runs \<open>run_job\<close> to its end.\<close>

definition task_step :: "nat \<Rightarrow> step_world \<Rightarrow> runner \<Rightarrow> runner" where
  "task_step t sw r =
     (if t \<ge> length (tasks r) then r
      else
       (let tk = tasks r ! t in
        case phase tk of
          Done \<Rightarrow> r
        | Created \<Rightarrow>
            if must_cancel tk then r\<lparr>tasks := (tasks r)[t := tk\<lparr>phase := Done\<rparr>]\<rparr>
            else (case jobs r (t_job_id tk) of
                    None \<Rightarrow> r\<lparr>tasks := (tasks r)[t := tk\<lparr>phase := Done\<rparr>]\<rparr>
                  | Some a \<Rightarrow>
                     (case job_at r a of
                        None \<Rightarrow> r\<lparr>tasks := (tasks r)[t := tk\<lparr>phase := Done\<rparr>]\<rparr>
                      | Some j \<Rightarrow>
                         (case run_job_begin (results_dir r) sw j of
                            (j', reached) \<Rightarrow>
                              if reached \<and> question_ids j' = []
                              then r\<lparr>heap := (heap r)[a := run_job_finish sw j'],
                                     tasks := (tasks r)
                                       [t := tk\<lparr>phase := Done, job_ref := Some a\<rparr>]\<rparr>
                              else r\<lparr>heap := (heap r)[a := j'],
                                     tasks := (tasks r)
                                       [t := tk\<lparr>phase := (if reached then AtGather else Done),
                                               job_ref := Some a\<rparr>]\<rparr>)))
        | AtGather \<Rightarrow>
            if must_cancel tk then r\<lparr>tasks := (tasks r)[t := tk\<lparr>phase := Done\<rparr>]\<rparr>
            else (case job_ref tk of
                    None \<Rightarrow> r\<lparr>tasks := (tasks r)[t := tk\<lparr>phase := Done\<rparr>]\<rparr>
                  | Some a \<Rightarrow>
                     (case job_at r a of
                        None \<Rightarrow> r\<lparr>tasks := (tasks r)[t := tk\<lparr>phase := Done\<rparr>]\<rparr>
                      | Some j \<Rightarrow>
                          r\<lparr>heap := (heap r)[a := run_job_finish sw j],
                            tasks := (tasks r)[t := tk\<lparr>phase := Done\<rparr>]\<rparr>))))"

subsection \<open>Sequences of orchestrator operations\<close>

datatype event =
    CreateJob string string "string list" "string list"
  | StartJob string
  | CancelJob string "exc option"
  | TaskStep nat step_world

fun apply_event :: "event \<Rightarrow> runner \<Rightarrow> runner" where
  "apply_event (CreateJob stamp created rids qids) r = snd (create_job stamp created rids qids r)"
| "apply_event (StartJob jid) r = start_job jid r"
| "apply_event (CancelJob jid save_err) r = snd (cancel_job save_err jid r)"
| "apply_event (TaskStep t sw) r = task_step t sw r"

fun run_events :: "event list \<Rightarrow> runner \<Rightarrow> runner" where
  "run_events [] r = r"
| "run_events (e # es) r = run_events es (apply_event e r)"

definition terminal :: "job_status \<Rightarrow> bool" where
  "terminal s = (s = COMPLETED \<or> s = FAILED \<or> s = CANCELLED)"

subsection \<open>\<open>cancel_job\<close>\<close>

text \<open>
  Claim C9.  \<open>cancel_job\<close> returns false and changes nothing whenever the job id is not in
  the registry or the registered job's status is not running; and when it returns true,
  the status of the job registered under that id is cancelled afterwards.
\<close>

theorem cancel_job_contract:
  "((jobs r jid = None
      \<or> (\<exists>a j. jobs r jid = Some a \<and> job_at r a = Some j \<and> status j \<noteq> RUNNING))
     \<longrightarrow> cancel_job save_err jid r = (Inr False, r))
   \<and> (cancel_job save_err jid r = (Inr True, r')
     \<longrightarrow> (\<exists>a j. jobs r' jid = Some a \<and> job_at r' a = Some j \<and> status j = CANCELLED
               \<and> p_status (progress j) = CANCELLED))"
proof (intro conjI impI)
  assume "jobs r jid = None
      \<or> (\<exists>a j. jobs r jid = Some a \<and> job_at r a = Some j \<and> status j \<noteq> RUNNING)"
  then show "cancel_job save_err jid r = (Inr False, r)"
    by (auto simp: cancel_job_def)
next
  assume ok: "cancel_job save_err jid r = (Inr True, r')"
  obtain a where a: "jobs r jid = Some a"
    using ok by (cases "jobs r jid") (auto simp: cancel_job_def)
  obtain j where j: "job_at r a = Some j"
    using ok a by (cases "job_at r a") (auto simp: cancel_job_def)
  have run: "status j = RUNNING"
    using ok a j by (auto simp: cancel_job_def split: if_splits)
  obtain t where t: "running_tasks r jid = Some t"
    using ok a j run by (cases "running_tasks r jid") (auto simp: cancel_job_def)
  have r': "r' = r\<lparr>tasks := (tasks r)[t := request_cancel (tasks r ! t)],
                   heap := (heap r)[a := set_status CANCELLED j]\<rparr>"
    using ok a j run t by (auto simp: cancel_job_def Let_def split: option.splits)
  have len: "a < length (heap r)"
    using j by (simp add: job_at_def split: if_splits)
  have "jobs r' jid = Some a" using r' a by simp
  moreover have "job_at r' a = Some (set_status CANCELLED j)"
    using r' len by (simp add: job_at_def)
  moreover have "status (set_status CANCELLED j) = CANCELLED"
    "p_status (progress (set_status CANCELLED j)) = CANCELLED"
    by (simp_all add: set_status_def)
  ultimately show "\<exists>a j. jobs r' jid = Some a \<and> job_at r' a = Some j \<and> status j = CANCELLED
               \<and> p_status (progress j) = CANCELLED"
    by blast
qed

subsection \<open>Terminal states\<close>

text \<open>The restriction under which terminal states are final: \<open>start_job\<close> is called for a
  job id only if no task was started for that id before.\<close>

definition ok_event :: "runner \<Rightarrow> event \<Rightarrow> bool" where
  "ok_event r e = (case e of StartJob jid \<Rightarrow> running_tasks r jid = None | other \<Rightarrow> True)"

fun guarded :: "event list \<Rightarrow> runner \<Rightarrow> bool" where
  "guarded [] r = True"
| "guarded (e # es) r = (ok_event r e \<and> guarded es (apply_event e r))"

text \<open>The invariant of the reachable states: every task is the registered task of its job
  id; the registry points to stored jobs of the right id; a job that has left \<open>pending\<close> is
  held by a task; a task holds a stored job of its id once it has started; and a task that
  waits at the \<open>await\<close> without a cancellation request holds a running job.\<close>

definition inv_tasks :: "runner \<Rightarrow> bool" where
  "inv_tasks r = (\<forall>t < length (tasks r). running_tasks r (t_job_id (tasks r ! t)) = Some t)"

definition inv_jobs :: "runner \<Rightarrow> bool" where
  "inv_jobs r =
     (\<forall>jid a. jobs r jid = Some a \<longrightarrow> a < length (heap r) \<and> job_id (heap r ! a) = jid)"

definition inv_held :: "runner \<Rightarrow> bool" where
  "inv_held r =
     (\<forall>a < length (heap r). status (heap r ! a) \<noteq> PENDING
        \<longrightarrow> (\<exists>t < length (tasks r). job_ref (tasks r ! t) = Some a))"

definition inv_ref :: "runner \<Rightarrow> bool" where
  "inv_ref r =
     (\<forall>t < length (tasks r). \<forall>a. job_ref (tasks r ! t) = Some a
        \<longrightarrow> a < length (heap r) \<and> job_id (heap r ! a) = t_job_id (tasks r ! t)
            \<and> phase (tasks r ! t) \<noteq> Created)"

definition inv_wait :: "runner \<Rightarrow> bool" where
  "inv_wait r =
     (\<forall>t < length (tasks r). \<forall>a.
        job_ref (tasks r ! t) = Some a \<and> phase (tasks r ! t) = AtGather
          \<and> \<not> must_cancel (tasks r ! t)
        \<longrightarrow> status (heap r ! a) = RUNNING)"

definition inv :: "runner \<Rightarrow> bool" where
  "inv r = (inv_tasks r \<and> inv_jobs r \<and> inv_held r \<and> inv_ref r \<and> inv_wait r)"

lemma inv_new_runner: "inv (new_runner dir)"
  by (simp add: inv_def inv_tasks_def inv_jobs_def inv_held_def inv_ref_def inv_wait_def
        new_runner_def)

text \<open>What the segments of \<open>run_job\<close> do to the fields the invariant reads.\<close>

lemma set_status_simps [simp]:
  "status (set_status s j) = s" "job_id (set_status s j) = job_id j"
  by (simp_all add: set_status_def)

lemma fail_job_simps [simp]:
  "status (fail_job e j) = FAILED" "job_id (fail_job e j) = job_id j"
  by (simp_all add: fail_job_def)

lemma run_job_begin_job_id: "job_id (fst (run_job_begin dir sw j)) = job_id j"
  by (simp add: run_job_begin_def Let_def split: option.splits)

lemma run_job_begin_status:
  "status (fst (run_job_begin dir sw j)) =
     (if snd (run_job_begin dir sw j) then RUNNING else FAILED)"
  by (simp add: run_job_begin_def Let_def split: option.splits)

lemma process_results_job:
  "job_id (fst (process_results (j, ar) i zs)) = job_id j
   \<and> status (fst (process_results (j, ar) i zs)) = status j
   \<and> question_ids (fst (process_results (j, ar) i zs)) = question_ids j"
  by (induction zs arbitrary: j ar i) (auto simp: Let_def)

lemma run_job_finish_job_id: "job_id (run_job_finish sw j) = job_id j"
proof -
  obtain j1 ar where p: "process_results (j, []) 0 (zip (question_ids j) (gathered sw)) = (j1, ar)"
    by (cases "process_results (j, []) 0 (zip (question_ids j) (gathered sw))")
  have "job_id j1 = job_id j" using process_results_job[of j "[]" 0] p by (metis fst_conv)
  then show ?thesis
    using p by (simp add: run_job_finish_def Let_def split: sum.splits option.splits)
qed

lemma run_job_finish_status:
  "status (run_job_finish sw j) = COMPLETED \<or> status (run_job_finish sw j) = FAILED"
proof -
  obtain j1 ar where p: "process_results (j, []) 0 (zip (question_ids j) (gathered sw)) = (j1, ar)"
    by (cases "process_results (j, []) 0 (zip (question_ids j) (gathered sw))")
  show ?thesis
    using p by (simp add: run_job_finish_def Let_def split: sum.splits option.splits)
qed

text \<open>The possible effects of \<open>cancel_job\<close> and of one task step.\<close>

lemma cancel_job_cases:
  "snd (cancel_job save_err jid r) = r
   \<or> (\<exists>a j t. jobs r jid = Some a \<and> a < length (heap r) \<and> heap r ! a = j
          \<and> status j = RUNNING \<and> running_tasks r jid = Some t
          \<and> snd (cancel_job save_err jid r)
              = r\<lparr>tasks := (tasks r)[t := request_cancel (tasks r ! t)],
                  heap := (heap r)[a := set_status CANCELLED j]\<rparr>)"
  by (auto simp: cancel_job_def job_at_def Let_def split: option.splits if_splits)

lemma task_step_cases:
  "task_step t sw r = r
   \<or> (t < length (tasks r) \<and> phase (tasks r ! t) \<noteq> Done
        \<and> task_step t sw r = r\<lparr>tasks := (tasks r)[t := (tasks r ! t)\<lparr>phase := Done\<rparr>]\<rparr>)
   \<or> (\<exists>a j' ph. t < length (tasks r) \<and> phase (tasks r ! t) = Created
          \<and> \<not> must_cancel (tasks r ! t)
          \<and> jobs r (t_job_id (tasks r ! t)) = Some a \<and> a < length (heap r)
          \<and> job_id j' = job_id (heap r ! a) \<and> ph \<noteq> Created
          \<and> (ph = AtGather \<longrightarrow> status j' = RUNNING)
          \<and> task_step t sw r
              = r\<lparr>heap := (heap r)[a := j'],
                  tasks := (tasks r)[t := (tasks r ! t)\<lparr>phase := ph, job_ref := Some a\<rparr>]\<rparr>)
   \<or> (\<exists>a j. t < length (tasks r) \<and> phase (tasks r ! t) = AtGather
          \<and> \<not> must_cancel (tasks r ! t)
          \<and> job_ref (tasks r ! t) = Some a \<and> a < length (heap r) \<and> heap r ! a = j
          \<and> task_step t sw r
              = r\<lparr>heap := (heap r)[a := run_job_finish sw j],
                  tasks := (tasks r)[t := (tasks r ! t)\<lparr>phase := Done\<rparr>]\<rparr>)"
proof (cases "t < length (tasks r)")
  case False
  then show ?thesis by (simp add: task_step_def)
next
  case lt: True
  let ?tk = "tasks r ! t"
  let ?over = "r\<lparr>tasks := (tasks r)[t := ?tk\<lparr>phase := Done\<rparr>]\<rparr>"
  show ?thesis
  proof (cases "phase ?tk")
    case Done
    then show ?thesis using lt by (simp add: task_step_def Let_def)
  next
    case Created
    show ?thesis
    proof (cases "must_cancel ?tk")
      case True
      then have "task_step t sw r = ?over" using lt Created by (simp add: task_step_def Let_def)
      then show ?thesis using lt Created by simp
    next
      case nc: False
      show ?thesis
      proof (cases "jobs r (t_job_id ?tk)")
        case None
        then have "task_step t sw r = ?over"
          using lt Created nc by (simp add: task_step_def Let_def)
        then show ?thesis using lt Created by simp
      next
        case (Some a)
        show ?thesis
        proof (cases "a < length (heap r)")
          case False
          then have "task_step t sw r = ?over"
            using lt Created nc Some by (simp add: task_step_def Let_def job_at_def)
          then show ?thesis using lt Created by simp
        next
          case la: True
          let ?j = "heap r ! a"
          let ?b = "run_job_begin (results_dir r) sw ?j"
          have ja: "job_at r a = Some ?j" using la by (simp add: job_at_def)
          obtain j1 reached where b: "?b = (j1, reached)" by (cases ?b)
          have j1: "job_id j1 = job_id ?j"
            using run_job_begin_job_id[of "results_dir r" sw ?j] b by simp
          have s1: "status j1 = (if reached then RUNNING else FAILED)"
            using run_job_begin_status[of "results_dir r" sw ?j] b by simp
          show ?thesis
          proof (cases "reached \<and> question_ids j1 = []")
            case True
            then have st: "task_step t sw r
                = r\<lparr>heap := (heap r)[a := run_job_finish sw j1],
                    tasks := (tasks r)[t := ?tk\<lparr>phase := Done, job_ref := Some a\<rparr>]\<rparr>"
              using lt Created nc Some ja b by (simp add: task_step_def Let_def)
            have "job_id (run_job_finish sw j1) = job_id ?j"
              using j1 by (simp add: run_job_finish_job_id)
            then have "\<exists>a j' ph. t < length (tasks r) \<and> phase ?tk = Created
                \<and> \<not> must_cancel ?tk
                \<and> jobs r (t_job_id ?tk) = Some a \<and> a < length (heap r)
                \<and> job_id j' = job_id (heap r ! a) \<and> ph \<noteq> Created
                \<and> (ph = AtGather \<longrightarrow> status j' = RUNNING)
                \<and> task_step t sw r
                    = r\<lparr>heap := (heap r)[a := j'],
                        tasks := (tasks r)[t := ?tk\<lparr>phase := ph, job_ref := Some a\<rparr>]\<rparr>"
              using lt Created nc Some la st
              by (intro exI[of _ a] exI[of _ "run_job_finish sw j1"] exI[of _ Done]) simp
            then show ?thesis by blast
          next
            case False
            let ?ph = "if reached then AtGather else Done"
            have st: "task_step t sw r
                = r\<lparr>heap := (heap r)[a := j1],
                    tasks := (tasks r)[t := ?tk\<lparr>phase := ?ph, job_ref := Some a\<rparr>]\<rparr>"
              using lt Created nc Some ja b False
              by (cases reached) (simp_all add: task_step_def Let_def)
            have "?ph \<noteq> Created" by simp
            moreover have "?ph = AtGather \<longrightarrow> status j1 = RUNNING"
              using s1 by simp
            ultimately have "\<exists>a j' ph. t < length (tasks r) \<and> phase ?tk = Created
                \<and> \<not> must_cancel ?tk
                \<and> jobs r (t_job_id ?tk) = Some a \<and> a < length (heap r)
                \<and> job_id j' = job_id (heap r ! a) \<and> ph \<noteq> Created
                \<and> (ph = AtGather \<longrightarrow> status j' = RUNNING)
                \<and> task_step t sw r
                    = r\<lparr>heap := (heap r)[a := j'],
                        tasks := (tasks r)[t := ?tk\<lparr>phase := ph, job_ref := Some a\<rparr>]\<rparr>"
              using lt Created nc Some la st j1
              by (intro exI[of _ a] exI[of _ j1] exI[of _ ?ph]) simp
            then show ?thesis by blast
          qed
        qed
      qed
    qed
  next
    case AtGather
    show ?thesis
    proof (cases "must_cancel ?tk")
      case True
      then have "task_step t sw r = ?over" using lt AtGather by (simp add: task_step_def Let_def)
      then show ?thesis using lt AtGather by simp
    next
      case nc: False
      show ?thesis
      proof (cases "job_ref ?tk")
        case None
        then have "task_step t sw r = ?over"
          using lt AtGather nc by (simp add: task_step_def Let_def)
        then show ?thesis using lt AtGather by simp
      next
        case (Some a)
        show ?thesis
        proof (cases "a < length (heap r)")
          case False
          then have "task_step t sw r = ?over"
            using lt AtGather nc Some by (simp add: task_step_def Let_def job_at_def)
          then show ?thesis using lt AtGather by simp
        next
          case True
          then have "task_step t sw r
              = r\<lparr>heap := (heap r)[a := run_job_finish sw (heap r ! a)],
                  tasks := (tasks r)[t := ?tk\<lparr>phase := Done\<rparr>]\<rparr>"
            using lt AtGather nc Some by (simp add: task_step_def Let_def job_at_def)
          then show ?thesis using lt AtGather nc Some True by simp
        qed
      qed
    qed
  qed
qed

lemma request_cancel_simps [simp]:
  "t_job_id (request_cancel x) = t_job_id x" "job_ref (request_cancel x) = job_ref x"
  "phase (request_cancel x) = phase x"
  "must_cancel (request_cancel x) = (phase x \<noteq> Done \<or> must_cancel x)"
  by (simp_all add: request_cancel_def)

text \<open>A job object is held by at most one task, and that task is the one registered for
  the job's id.\<close>

lemma holder_unique:
  assumes "inv_tasks r" and "inv_ref r"
    and "t1 < length (tasks r)" and "job_ref (tasks r ! t1) = Some a"
    and "t2 < length (tasks r)" and "job_ref (tasks r ! t2) = Some a"
  shows "t1 = t2"
proof -
  have "t_job_id (tasks r ! t1) = job_id (heap r ! a)"
    using assms(2,3,4) by (simp add: inv_ref_def)
  moreover have "t_job_id (tasks r ! t2) = job_id (heap r ! a)"
    using assms(2,5,6) by (simp add: inv_ref_def)
  moreover have "running_tasks r (t_job_id (tasks r ! t1)) = Some t1"
    using assms(1,3) by (simp add: inv_tasks_def)
  moreover have "running_tasks r (t_job_id (tasks r ! t2)) = Some t2"
    using assms(1,5) by (simp add: inv_tasks_def)
  ultimately show ?thesis by simp
qed

lemma holder_is_registered:
  assumes "inv_tasks r" and "inv_ref r" and "inv_jobs r"
    and "t < length (tasks r)" and "jobs r (t_job_id (tasks r ! t)) = Some a"
    and "t' < length (tasks r)" and "job_ref (tasks r ! t') = Some a"
  shows "t' = t"
proof -
  have "job_id (heap r ! a) = t_job_id (tasks r ! t)"
    using assms(3,5) by (simp add: inv_jobs_def)
  moreover have "t_job_id (tasks r ! t') = job_id (heap r ! a)"
    using assms(2,6,7) by (simp add: inv_ref_def)
  moreover have "running_tasks r (t_job_id (tasks r ! t)) = Some t"
    using assms(1,4) by (simp add: inv_tasks_def)
  moreover have "running_tasks r (t_job_id (tasks r ! t')) = Some t'"
    using assms(1,6) by (simp add: inv_tasks_def)
  ultimately show ?thesis by (metis option.inject)
qed

lemma create_job_fields:
  "\<exists>j. job_id j = ''comp_judge_'' @ stamp \<and> status j = PENDING
       \<and> heap (snd (create_job stamp created rids qids r)) = heap r @ [j]
       \<and> jobs (snd (create_job stamp created rids qids r))
           = (jobs r)(''comp_judge_'' @ stamp \<mapsto> length (heap r))
       \<and> tasks (snd (create_job stamp created rids qids r)) = tasks r
       \<and> running_tasks (snd (create_job stamp created rids qids r)) = running_tasks r"
  by (simp add: create_job_def Let_def)

lemma inv_create_job:
  assumes "inv r"
  shows "inv (snd (create_job stamp created rids qids r))"
proof -
  let ?r = "snd (create_job stamp created rids qids r)"
  let ?jid = "''comp_judge_'' @ stamp"
  obtain j where j: "job_id j = ?jid" "status j = PENDING"
    and hp: "heap ?r = heap r @ [j]"
    and jb: "jobs ?r = (jobs r)(?jid \<mapsto> length (heap r))"
    and tk: "tasks ?r = tasks r" and rt: "running_tasks ?r = running_tasks r"
    using create_job_fields[of stamp created rids qids r] by blast
  have it: "inv_tasks r" and ij: "inv_jobs r" and ih: "inv_held r" and ir: "inv_ref r"
    and iw: "inv_wait r"
    using assms by (simp_all add: inv_def)
  have 1: "inv_tasks ?r" using it by (simp add: inv_tasks_def tk rt)
  have 2: "inv_jobs ?r"
    unfolding inv_jobs_def
  proof (intro allI impI)
    fix jid a assume h: "jobs ?r jid = Some a"
    show "a < length (heap ?r) \<and> job_id (heap ?r ! a) = jid"
    proof (cases "jid = ?jid")
      case True
      then have "a = length (heap r)" using h jb by simp
      then show ?thesis using True j hp by simp
    next
      case False
      then have "jobs r jid = Some a" using h jb by simp
      then have "a < length (heap r) \<and> job_id (heap r ! a) = jid"
        using ij by (simp add: inv_jobs_def)
      then show ?thesis using hp by (simp add: nth_append)
    qed
  qed
  have 3: "inv_held ?r"
    unfolding inv_held_def
  proof (intro allI impI)
    fix a assume a: "a < length (heap ?r)" and s: "status (heap ?r ! a) \<noteq> PENDING"
    have "a \<noteq> length (heap r)" using s hp j by auto
    then have lt: "a < length (heap r)" using a hp by simp
    then have "status (heap r ! a) \<noteq> PENDING" using s hp by (simp add: nth_append)
    then show "\<exists>t<length (tasks ?r). job_ref (tasks ?r ! t) = Some a"
      using ih lt by (simp add: inv_held_def tk)
  qed
  have 4: "inv_ref ?r"
    unfolding inv_ref_def
  proof (intro allI impI)
    fix t a assume t: "t < length (tasks ?r)" and h: "job_ref (tasks ?r ! t) = Some a"
    then have "a < length (heap r) \<and> job_id (heap r ! a) = t_job_id (tasks r ! t)
            \<and> phase (tasks r ! t) \<noteq> Created"
      using ir by (simp add: inv_ref_def tk)
    then show "a < length (heap ?r) \<and> job_id (heap ?r ! a) = t_job_id (tasks ?r ! t)
            \<and> phase (tasks ?r ! t) \<noteq> Created"
      by (simp add: tk hp nth_append)
  qed
  have 5: "inv_wait ?r"
    unfolding inv_wait_def
  proof (intro allI impI)
    fix t a assume t: "t < length (tasks ?r)"
      and h: "job_ref (tasks ?r ! t) = Some a \<and> phase (tasks ?r ! t) = AtGather
          \<and> \<not> must_cancel (tasks ?r ! t)"
    have "a < length (heap r)" using ir t h by (simp add: inv_ref_def tk)
    moreover have "status (heap r ! a) = RUNNING" using iw t h by (simp add: inv_wait_def tk)
    ultimately show "status (heap ?r ! a) = RUNNING" by (simp add: hp nth_append)
  qed
  show ?thesis using 1 2 3 4 5 by (simp add: inv_def)
qed

lemma inv_start_job:
  assumes "inv r" and "running_tasks r jid = None"
  shows "inv (start_job jid r)"
proof -
  let ?r = "start_job jid r"
  let ?new = "\<lparr>t_job_id = jid, phase = Created, job_ref = None, must_cancel = False\<rparr>"
  have hp: "heap ?r = heap r" and jb: "jobs ?r = jobs r"
    and tk: "tasks ?r = tasks r @ [?new]"
    and rt: "running_tasks ?r = (running_tasks r)(jid \<mapsto> length (tasks r))"
    by (simp_all add: start_job_def)
  have it: "inv_tasks r" and ij: "inv_jobs r" and ih: "inv_held r" and ir: "inv_ref r"
    and iw: "inv_wait r"
    using assms by (simp_all add: inv_def)
  have old: "\<And>t. t < length (tasks r) \<Longrightarrow> tasks ?r ! t = tasks r ! t"
    by (simp add: tk nth_append)
  have new: "tasks ?r ! length (tasks r) = ?new" by (simp add: tk)
  have 1: "inv_tasks ?r"
    unfolding inv_tasks_def
  proof (intro allI impI)
    fix t assume t: "t < length (tasks ?r)"
    show "running_tasks ?r (t_job_id (tasks ?r ! t)) = Some t"
    proof (cases "t = length (tasks r)")
      case True
      then show ?thesis using new rt by simp
    next
      case False
      then have lt: "t < length (tasks r)" using t tk by simp
      then have reg: "running_tasks r (t_job_id (tasks r ! t)) = Some t"
        using it by (simp add: inv_tasks_def)
      then have "t_job_id (tasks r ! t) \<noteq> jid" using assms(2) by auto
      then show ?thesis using reg lt old rt by simp
    qed
  qed
  have 2: "inv_jobs ?r" using ij by (simp add: inv_jobs_def hp jb)
  have 3: "inv_held ?r"
    unfolding inv_held_def
  proof (intro allI impI)
    fix a assume "a < length (heap ?r)" and "status (heap ?r ! a) \<noteq> PENDING"
    then obtain t where "t < length (tasks r)" "job_ref (tasks r ! t) = Some a"
      using ih by (auto simp: inv_held_def hp)
    then have "t < length (tasks ?r) \<and> job_ref (tasks ?r ! t) = Some a"
      using old tk by simp
    then show "\<exists>t<length (tasks ?r). job_ref (tasks ?r ! t) = Some a" by blast
  qed
  have ref_old: "\<And>t a. t < length (tasks ?r) \<Longrightarrow> job_ref (tasks ?r ! t) = Some a
                   \<Longrightarrow> t < length (tasks r)"
  proof -
    fix t a assume t: "t < length (tasks ?r)" and h: "job_ref (tasks ?r ! t) = Some a"
    have "t \<noteq> length (tasks r)" using h new by auto
    then show "t < length (tasks r)" using t tk by simp
  qed
  have 4: "inv_ref ?r"
    unfolding inv_ref_def
  proof (intro allI impI)
    fix t a assume t: "t < length (tasks ?r)" and h: "job_ref (tasks ?r ! t) = Some a"
    have lt: "t < length (tasks r)" using ref_old t h by blast
    then show "a < length (heap ?r) \<and> job_id (heap ?r ! a) = t_job_id (tasks ?r ! t)
            \<and> phase (tasks ?r ! t) \<noteq> Created"
      using ir h old by (simp add: inv_ref_def hp)
  qed
  have 5: "inv_wait ?r"
    unfolding inv_wait_def
  proof (intro allI impI)
    fix t a assume t: "t < length (tasks ?r)"
      and h: "job_ref (tasks ?r ! t) = Some a \<and> phase (tasks ?r ! t) = AtGather
          \<and> \<not> must_cancel (tasks ?r ! t)"
    have lt: "t < length (tasks r)" using ref_old t h by blast
    then show "status (heap ?r ! a) = RUNNING"
      using iw h old by (simp add: inv_wait_def hp)
  qed
  show ?thesis using 1 2 3 4 5 by (simp add: inv_def)
qed

lemma inv_cancel_job:
  assumes "inv r"
  shows "inv (snd (cancel_job save_err jid r))"
proof -
  have it: "inv_tasks r" and ij: "inv_jobs r" and ih: "inv_held r" and ir: "inv_ref r"
    and iw: "inv_wait r"
    using assms by (simp_all add: inv_def)
  consider (same) "snd (cancel_job save_err jid r) = r"
    | (cancelled) a t where "jobs r jid = Some a" "a < length (heap r)"
        "status (heap r ! a) = RUNNING" "running_tasks r jid = Some t"
        "snd (cancel_job save_err jid r)
           = r\<lparr>tasks := (tasks r)[t := request_cancel (tasks r ! t)],
               heap := (heap r)[a := set_status CANCELLED (heap r ! a)]\<rparr>"
    using cancel_job_cases[of save_err jid r] by blast
  then show ?thesis
  proof cases
    case same
    then show ?thesis using assms by simp
  next
    case cancelled
    let ?r = "snd (cancel_job save_err jid r)"
    have hp: "heap ?r = (heap r)[a := set_status CANCELLED (heap r ! a)]"
      and tk: "tasks ?r = (tasks r)[t := request_cancel (tasks r ! t)]"
      and jb: "jobs ?r = jobs r" and rt: "running_tasks ?r = running_tasks r"
      using cancelled(5) by simp_all
    have len: "length (heap ?r) = length (heap r)" "length (tasks ?r) = length (tasks r)"
      by (simp_all add: hp tk)
    have jid: "\<And>b. b < length (heap r) \<Longrightarrow> job_id (heap ?r ! b) = job_id (heap r ! b)"
    proof -
      fix b assume "b < length (heap r)"
      then show "job_id (heap ?r ! b) = job_id (heap r ! b)"
        by (cases "b = a") (simp_all add: hp)
    qed
    have tsk: "\<And>u. u < length (tasks r) \<Longrightarrow>
                 t_job_id (tasks ?r ! u) = t_job_id (tasks r ! u)
                 \<and> job_ref (tasks ?r ! u) = job_ref (tasks r ! u)
                 \<and> phase (tasks ?r ! u) = phase (tasks r ! u)"
    proof -
      fix u assume "u < length (tasks r)"
      then show "t_job_id (tasks ?r ! u) = t_job_id (tasks r ! u)
                 \<and> job_ref (tasks ?r ! u) = job_ref (tasks r ! u)
                 \<and> phase (tasks ?r ! u) = phase (tasks r ! u)"
        by (cases "u = t") (simp_all add: tk)
    qed
    have 1: "inv_tasks ?r"
      using it tsk by (simp add: inv_tasks_def len rt)
    have 2: "inv_jobs ?r"
      using ij jid by (simp add: inv_jobs_def len jb)
    have 3: "inv_held ?r"
      unfolding inv_held_def
    proof (intro allI impI)
      fix b assume b: "b < length (heap ?r)" and s: "status (heap ?r ! b) \<noteq> PENDING"
      have "status (heap r ! b) \<noteq> PENDING"
      proof (cases "b = a")
        case True
        then show ?thesis using cancelled(3) by simp
      next
        case False
        then show ?thesis using s by (simp add: hp)
      qed
      then obtain u where "u < length (tasks r)" "job_ref (tasks r ! u) = Some b"
        using ih b len by (auto simp: inv_held_def)
      then have "u < length (tasks ?r) \<and> job_ref (tasks ?r ! u) = Some b"
        using tsk len by simp
      then show "\<exists>u<length (tasks ?r). job_ref (tasks ?r ! u) = Some b" by blast
    qed
    have 4: "inv_ref ?r"
      unfolding inv_ref_def
    proof (intro allI impI)
      fix u b assume u: "u < length (tasks ?r)" and h: "job_ref (tasks ?r ! u) = Some b"
      have lt: "u < length (tasks r)" using u len by simp
      have "job_ref (tasks r ! u) = Some b" using h tsk lt by simp
      then have "b < length (heap r) \<and> job_id (heap r ! b) = t_job_id (tasks r ! u)
              \<and> phase (tasks r ! u) \<noteq> Created"
        using ir lt by (simp add: inv_ref_def)
      then show "b < length (heap ?r) \<and> job_id (heap ?r ! b) = t_job_id (tasks ?r ! u)
              \<and> phase (tasks ?r ! u) \<noteq> Created"
        using tsk lt jid len by simp
    qed
    have 5: "inv_wait ?r"
      unfolding inv_wait_def
    proof (intro allI impI)
      fix u b assume u: "u < length (tasks ?r)"
        and h: "job_ref (tasks ?r ! u) = Some b \<and> phase (tasks ?r ! u) = AtGather
            \<and> \<not> must_cancel (tasks ?r ! u)"
      have lt: "u < length (tasks r)" using u len by simp
      have ref: "job_ref (tasks r ! u) = Some b" and ph: "phase (tasks r ! u) = AtGather"
        using h tsk lt by simp_all
      have ne: "u \<noteq> t"
      proof
        assume "u = t"
        then have "must_cancel (tasks ?r ! u)" using lt ph by (simp add: tk)
        then show False using h by simp
      qed
      then have mc: "\<not> must_cancel (tasks r ! u)" using h by (simp add: tk)
      have run: "status (heap r ! b) = RUNNING"
        using iw lt ref ph mc by (simp add: inv_wait_def)
      have "b \<noteq> a"
      proof
        assume "b = a"
        then have "t_job_id (tasks r ! u) = job_id (heap r ! a)"
          using ir lt ref by (simp add: inv_ref_def)
        moreover have "job_id (heap r ! a) = jid"
          using ij cancelled(1) by (simp add: inv_jobs_def)
        moreover have "running_tasks r (t_job_id (tasks r ! u)) = Some u"
          using it lt by (simp add: inv_tasks_def)
        ultimately have "u = t" using cancelled(4) by (metis option.inject)
        then show False using ne by simp
      qed
      then show "status (heap ?r ! b) = RUNNING" using run by (simp add: hp)
    qed
    show ?thesis using 1 2 3 4 5 by (simp add: inv_def)
  qed
qed

lemma inv_task_step:
  assumes "inv r"
  shows "inv (task_step t sw r)"
proof -
  have it: "inv_tasks r" and ij: "inv_jobs r" and ih: "inv_held r" and ir: "inv_ref r"
    and iw: "inv_wait r"
    using assms by (simp_all add: inv_def)
  let ?r = "task_step t sw r"
  let ?tk = "tasks r ! t"
  consider (same) "?r = r"
    | (over) "t < length (tasks r)"
        "?r = r\<lparr>tasks := (tasks r)[t := ?tk\<lparr>phase := Done\<rparr>]\<rparr>"
    | (first_seg) a j' ph where "t < length (tasks r)" "phase ?tk = Created"
        "jobs r (t_job_id ?tk) = Some a" "a < length (heap r)"
        "?r = r\<lparr>heap := (heap r)[a := j'],
               tasks := (tasks r)[t := ?tk\<lparr>phase := ph, job_ref := Some a\<rparr>]\<rparr>"
        "job_id j' = job_id (heap r ! a)" "ph \<noteq> Created"
        "ph = AtGather \<longrightarrow> status j' = RUNNING"
    | (last_seg) a where "t < length (tasks r)" "phase ?tk = AtGather" "\<not> must_cancel ?tk"
        "job_ref ?tk = Some a" "a < length (heap r)"
        "?r = r\<lparr>heap := (heap r)[a := run_job_finish sw (heap r ! a)],
               tasks := (tasks r)[t := ?tk\<lparr>phase := Done\<rparr>]\<rparr>"
    using task_step_cases[of t sw r] by blast
  then show ?thesis
  proof cases
    case same
    then show ?thesis using assms by simp
  next
    case over
    have hp: "heap ?r = heap r" and jb: "jobs ?r = jobs r"
      and rt: "running_tasks ?r = running_tasks r"
      and tk: "tasks ?r = (tasks r)[t := ?tk\<lparr>phase := Done\<rparr>]"
      using over(2) by simp_all
    have len: "length (tasks ?r) = length (tasks r)" by (simp add: tk)
    have tsk: "\<And>u. u < length (tasks r) \<Longrightarrow>
                 t_job_id (tasks ?r ! u) = t_job_id (tasks r ! u)
                 \<and> job_ref (tasks ?r ! u) = job_ref (tasks r ! u)
                 \<and> must_cancel (tasks ?r ! u) = must_cancel (tasks r ! u)
                 \<and> (phase (tasks ?r ! u) = phase (tasks r ! u) \<or> phase (tasks ?r ! u) = Done)"
    proof -
      fix u assume "u < length (tasks r)"
      then show "t_job_id (tasks ?r ! u) = t_job_id (tasks r ! u)
                 \<and> job_ref (tasks ?r ! u) = job_ref (tasks r ! u)
                 \<and> must_cancel (tasks ?r ! u) = must_cancel (tasks r ! u)
                 \<and> (phase (tasks ?r ! u) = phase (tasks r ! u) \<or> phase (tasks ?r ! u) = Done)"
        by (cases "u = t") (simp_all add: tk)
    qed
    have 1: "inv_tasks ?r" using it tsk by (simp add: inv_tasks_def len rt)
    have 2: "inv_jobs ?r" using ij by (simp add: inv_jobs_def hp jb)
    have 3: "inv_held ?r"
      unfolding inv_held_def
    proof (intro allI impI)
      fix b assume "b < length (heap ?r)" and "status (heap ?r ! b) \<noteq> PENDING"
      then obtain u where "u < length (tasks r)" "job_ref (tasks r ! u) = Some b"
        using ih by (auto simp: inv_held_def hp)
      then have "u < length (tasks ?r) \<and> job_ref (tasks ?r ! u) = Some b"
        using tsk len by simp
      then show "\<exists>u<length (tasks ?r). job_ref (tasks ?r ! u) = Some b" by blast
    qed
    have 4: "inv_ref ?r"
      unfolding inv_ref_def
    proof (intro allI impI)
      fix u b assume u: "u < length (tasks ?r)" and h: "job_ref (tasks ?r ! u) = Some b"
      have lt: "u < length (tasks r)" using u len by simp
      have "job_ref (tasks r ! u) = Some b" using h tsk lt by simp
      then have "b < length (heap r) \<and> job_id (heap r ! b) = t_job_id (tasks r ! u)
              \<and> phase (tasks r ! u) \<noteq> Created"
        using ir lt by (simp add: inv_ref_def)
      then have old: "b < length (heap ?r) \<and> job_id (heap ?r ! b) = t_job_id (tasks ?r ! u)"
        and nc: "phase (tasks r ! u) \<noteq> Created"
        using tsk[OF lt] hp by simp_all
      have "phase (tasks ?r ! u) = phase (tasks r ! u) \<or> phase (tasks ?r ! u) = Done"
        using tsk[OF lt] by blast
      then have "phase (tasks ?r ! u) \<noteq> Created"
        using nc by auto
      then show "b < length (heap ?r) \<and> job_id (heap ?r ! b) = t_job_id (tasks ?r ! u)
              \<and> phase (tasks ?r ! u) \<noteq> Created"
        using old by simp
    qed
    have 5: "inv_wait ?r"
      unfolding inv_wait_def
    proof (intro allI impI)
      fix u b assume u: "u < length (tasks ?r)"
        and h: "job_ref (tasks ?r ! u) = Some b \<and> phase (tasks ?r ! u) = AtGather
            \<and> \<not> must_cancel (tasks ?r ! u)"
      have lt: "u < length (tasks r)" using u len by simp
      have "phase (tasks r ! u) = AtGather" using tsk[OF lt] h by auto
      then have "status (heap r ! b) = RUNNING"
        using iw lt h tsk[OF lt] by (simp add: inv_wait_def)
      then show "status (heap ?r ! b) = RUNNING" by (simp add: hp)
    qed
    show ?thesis using 1 2 3 4 5 by (simp add: inv_def)
  next
    case first_seg
    let ?tk' = "?tk\<lparr>phase := ph, job_ref := Some a\<rparr>"
    have hp: "heap ?r = (heap r)[a := j']" and jb: "jobs ?r = jobs r"
      and rt: "running_tasks ?r = running_tasks r"
      and tk: "tasks ?r = (tasks r)[t := ?tk']"
      using first_seg(5) by simp_all
    have len: "length (tasks ?r) = length (tasks r)" "length (heap ?r) = length (heap r)"
      by (simp_all add: tk hp)
    have none: "job_ref ?tk = None"
    proof (cases "job_ref ?tk")
      case (Some x)
      then have "phase ?tk \<noteq> Created" using ir first_seg(1) by (simp add: inv_ref_def)
      then show ?thesis using first_seg(2) by simp
    qed simp
    have free: "\<And>u. u < length (tasks r) \<Longrightarrow> job_ref (tasks r ! u) \<noteq> Some a"
    proof
      fix u assume u: "u < length (tasks r)" and "job_ref (tasks r ! u) = Some a"
      then have "u = t" using holder_is_registered[OF it ir ij first_seg(1) first_seg(3)] by blast
      then show False using none \<open>job_ref (tasks r ! u) = Some a\<close> by simp
    qed
    have at_t: "tasks ?r ! t = ?tk'" using first_seg(1) by (simp add: tk)
    have other: "\<And>u. u \<noteq> t \<Longrightarrow> tasks ?r ! u = tasks r ! u" by (simp add: tk)
    have jid: "\<And>b. b < length (heap r) \<Longrightarrow> job_id (heap ?r ! b) = job_id (heap r ! b)"
    proof -
      fix b assume "b < length (heap r)"
      then show "job_id (heap ?r ! b) = job_id (heap r ! b)"
        by (cases "b = a") (simp_all add: hp first_seg(6))
    qed
    have at_a: "heap ?r ! a = j'" using first_seg(4) by (simp add: hp)
    have off_a: "\<And>b. b \<noteq> a \<Longrightarrow> heap ?r ! b = heap r ! b" by (simp add: hp)
    have 1: "inv_tasks ?r"
      unfolding inv_tasks_def
    proof (intro allI impI)
      fix u assume "u < length (tasks ?r)"
      then have lt: "u < length (tasks r)" using len by simp
      have "t_job_id (tasks ?r ! u) = t_job_id (tasks r ! u)"
        by (cases "u = t") (simp_all add: at_t other)
      then show "running_tasks ?r (t_job_id (tasks ?r ! u)) = Some u"
        using it lt by (simp add: inv_tasks_def rt)
    qed
    have 2: "inv_jobs ?r" using ij jid by (simp add: inv_jobs_def len jb)
    have 3: "inv_held ?r"
      unfolding inv_held_def
    proof (intro allI impI)
      fix b assume b: "b < length (heap ?r)" and s: "status (heap ?r ! b) \<noteq> PENDING"
      show "\<exists>u<length (tasks ?r). job_ref (tasks ?r ! u) = Some b"
      proof (cases "b = a")
        case True
        have "t < length (tasks ?r) \<and> job_ref (tasks ?r ! t) = Some b"
          using first_seg(1) len True by (simp add: at_t)
        then show ?thesis by blast
      next
        case False
        then have "status (heap r ! b) \<noteq> PENDING" using s off_a by simp
        then obtain u where u: "u < length (tasks r)" "job_ref (tasks r ! u) = Some b"
          using ih b len by (auto simp: inv_held_def)
        then have "u \<noteq> t" using none by auto
        then have "u < length (tasks ?r) \<and> job_ref (tasks ?r ! u) = Some b"
          using u other len by simp
        then show ?thesis by blast
      qed
    qed
    have 4: "inv_ref ?r"
      unfolding inv_ref_def
    proof (intro allI impI)
      fix u b assume u: "u < length (tasks ?r)" and h: "job_ref (tasks ?r ! u) = Some b"
      have lt: "u < length (tasks r)" using u len by simp
      show "b < length (heap ?r) \<and> job_id (heap ?r ! b) = t_job_id (tasks ?r ! u)
              \<and> phase (tasks ?r ! u) \<noteq> Created"
      proof (cases "u = t")
        case True
        then have "b = a" using h by (simp add: at_t)
        moreover have "job_id (heap r ! a) = t_job_id ?tk"
          using ij first_seg(3) by (simp add: inv_jobs_def)
        ultimately show ?thesis using True first_seg(4) first_seg(7) jid len by (simp add: at_t)
      next
        case False
        then have "job_ref (tasks r ! u) = Some b" using h other by simp
        then have "b < length (heap r) \<and> job_id (heap r ! b) = t_job_id (tasks r ! u)
              \<and> phase (tasks r ! u) \<noteq> Created"
          using ir lt by (simp add: inv_ref_def)
        then show ?thesis using False other jid len by simp
      qed
    qed
    have 5: "inv_wait ?r"
      unfolding inv_wait_def
    proof (intro allI impI)
      fix u b assume u: "u < length (tasks ?r)"
        and h: "job_ref (tasks ?r ! u) = Some b \<and> phase (tasks ?r ! u) = AtGather
            \<and> \<not> must_cancel (tasks ?r ! u)"
      have lt: "u < length (tasks r)" using u len by simp
      show "status (heap ?r ! b) = RUNNING"
      proof (cases "u = t")
        case True
        then have "b = a" and "ph = AtGather" using h by (auto simp: at_t)
        then show ?thesis using at_a first_seg(8) by simp
      next
        case False
        then have old: "job_ref (tasks r ! u) = Some b \<and> phase (tasks r ! u) = AtGather
            \<and> \<not> must_cancel (tasks r ! u)"
          using h other by simp
        then have "b \<noteq> a" using free lt by auto
        moreover have "status (heap r ! b) = RUNNING"
          using iw lt old by (simp add: inv_wait_def)
        ultimately show ?thesis using off_a by simp
      qed
    qed
    show ?thesis using 1 2 3 4 5 by (simp add: inv_def)
  next
    case last_seg
    have hp: "heap ?r = (heap r)[a := run_job_finish sw (heap r ! a)]" and jb: "jobs ?r = jobs r"
      and rt: "running_tasks ?r = running_tasks r"
      and tk: "tasks ?r = (tasks r)[t := ?tk\<lparr>phase := Done\<rparr>]"
      using last_seg(6) by simp_all
    have len: "length (tasks ?r) = length (tasks r)" "length (heap ?r) = length (heap r)"
      by (simp_all add: tk hp)
    have at_t: "tasks ?r ! t = ?tk\<lparr>phase := Done\<rparr>" using last_seg(1) by (simp add: tk)
    have other: "\<And>u. u \<noteq> t \<Longrightarrow> tasks ?r ! u = tasks r ! u" by (simp add: tk)
    have jid: "\<And>b. b < length (heap r) \<Longrightarrow> job_id (heap ?r ! b) = job_id (heap r ! b)"
    proof -
      fix b assume "b < length (heap r)"
      then show "job_id (heap ?r ! b) = job_id (heap r ! b)"
        by (cases "b = a") (simp_all add: hp run_job_finish_job_id)
    qed
    have off_a: "\<And>b. b \<noteq> a \<Longrightarrow> heap ?r ! b = heap r ! b" by (simp add: hp)
    have tsk: "\<And>u. u < length (tasks r) \<Longrightarrow>
                 t_job_id (tasks ?r ! u) = t_job_id (tasks r ! u)
                 \<and> job_ref (tasks ?r ! u) = job_ref (tasks r ! u)"
    proof -
      fix u assume "u < length (tasks r)"
      then show "t_job_id (tasks ?r ! u) = t_job_id (tasks r ! u)
                 \<and> job_ref (tasks ?r ! u) = job_ref (tasks r ! u)"
        by (cases "u = t") (simp_all add: at_t other)
    qed
    have 1: "inv_tasks ?r" using it tsk by (simp add: inv_tasks_def len rt)
    have 2: "inv_jobs ?r" using ij jid by (simp add: inv_jobs_def len jb)
    have 3: "inv_held ?r"
      unfolding inv_held_def
    proof (intro allI impI)
      fix b assume b: "b < length (heap ?r)" and s: "status (heap ?r ! b) \<noteq> PENDING"
      show "\<exists>u<length (tasks ?r). job_ref (tasks ?r ! u) = Some b"
      proof (cases "b = a")
        case True
        have "t < length (tasks ?r) \<and> job_ref (tasks ?r ! t) = Some b"
          using last_seg(1,4) len True tsk by simp
        then show ?thesis by blast
      next
        case False
        then have "status (heap r ! b) \<noteq> PENDING" using s off_a by simp
        then obtain u where u: "u < length (tasks r)" "job_ref (tasks r ! u) = Some b"
          using ih b len by (auto simp: inv_held_def)
        then have "u < length (tasks ?r) \<and> job_ref (tasks ?r ! u) = Some b"
          using tsk len by simp
        then show ?thesis by blast
      qed
    qed
    have 4: "inv_ref ?r"
      unfolding inv_ref_def
    proof (intro allI impI)
      fix u b assume u: "u < length (tasks ?r)" and h: "job_ref (tasks ?r ! u) = Some b"
      have lt: "u < length (tasks r)" using u len by simp
      have "job_ref (tasks r ! u) = Some b" using h tsk lt by simp
      then have old: "b < length (heap r) \<and> job_id (heap r ! b) = t_job_id (tasks r ! u)
              \<and> phase (tasks r ! u) \<noteq> Created"
        using ir lt by (simp add: inv_ref_def)
      have "phase (tasks ?r ! u) \<noteq> Created"
        using old by (cases "u = t") (simp_all add: at_t other)
      then show "b < length (heap ?r) \<and> job_id (heap ?r ! b) = t_job_id (tasks ?r ! u)
              \<and> phase (tasks ?r ! u) \<noteq> Created"
        using old tsk lt jid len by simp
    qed
    have 5: "inv_wait ?r"
      unfolding inv_wait_def
    proof (intro allI impI)
      fix u b assume u: "u < length (tasks ?r)"
        and h: "job_ref (tasks ?r ! u) = Some b \<and> phase (tasks ?r ! u) = AtGather
            \<and> \<not> must_cancel (tasks ?r ! u)"
      have lt: "u < length (tasks r)" using u len by simp
      have ne: "u \<noteq> t" using h by (auto simp: at_t)
      then have old: "job_ref (tasks r ! u) = Some b \<and> phase (tasks r ! u) = AtGather
            \<and> \<not> must_cancel (tasks r ! u)"
        using h other by simp
      have "b \<noteq> a"
        using holder_unique[OF it ir lt _ last_seg(1) last_seg(4)] old ne by blast
      moreover have "status (heap r ! b) = RUNNING"
        using iw lt old by (simp add: inv_wait_def)
      ultimately show "status (heap ?r ! b) = RUNNING" using off_a by simp
    qed
    show ?thesis using 1 2 3 4 5 by (simp add: inv_def)
  qed
qed

lemma inv_apply_event:
  assumes "inv r" and "ok_event r e"
  shows "inv (apply_event e r)"
proof (cases e)
  case (CreateJob stamp created rids qids)
  then show ?thesis using assms(1) inv_create_job by simp
next
  case (StartJob jid)
  then show ?thesis using assms inv_start_job by (simp add: ok_event_def)
next
  case (CancelJob jid save_err)
  then show ?thesis using assms(1) inv_cancel_job by simp
next
  case (TaskStep t sw)
  then show ?thesis using assms(1) inv_task_step by simp
qed

lemma inv_run_events:
  "inv r \<Longrightarrow> guarded es r \<Longrightarrow> inv (run_events es r)"
  by (induction es arbitrary: r) (simp_all add: inv_apply_event)

text \<open>No single operation changes the status of a job object that is in a terminal
  state, in a reachable state and under the restriction on \<open>start_job\<close>.\<close>

lemma terminal_kept_by_event:
  assumes "inv r" and "ok_event r e"
    and "a < length (heap r)" and "terminal (status (heap r ! a))"
  shows "a < length (heap (apply_event e r))
       \<and> status (heap (apply_event e r) ! a) = status (heap r ! a)"
proof -
  have it: "inv_tasks r" and ij: "inv_jobs r" and ih: "inv_held r" and ir: "inv_ref r"
    and iw: "inv_wait r"
    using assms(1) by (simp_all add: inv_def)
  have np: "status (heap r ! a) \<noteq> PENDING" and nr: "status (heap r ! a) \<noteq> RUNNING"
    using assms(4) by (auto simp: terminal_def)
  obtain h where h: "h < length (tasks r)" "job_ref (tasks r ! h) = Some a"
    using ih assms(3) np by (auto simp: inv_held_def)
  show ?thesis
  proof (cases e)
    case (CreateJob stamp created rids qids)
    obtain j where "heap (snd (create_job stamp created rids qids r)) = heap r @ [j]"
      using create_job_fields[of stamp created rids qids r] by blast
    then show ?thesis using CreateJob assms(3) by (simp add: nth_append)
  next
    case (StartJob jid)
    then show ?thesis using assms(3) by (simp add: start_job_def)
  next
    case (CancelJob jid save_err)
    consider (same) "snd (cancel_job save_err jid r) = r"
      | (cancelled) b t where "status (heap r ! b) = RUNNING"
          "snd (cancel_job save_err jid r)
             = r\<lparr>tasks := (tasks r)[t := request_cancel (tasks r ! t)],
                 heap := (heap r)[b := set_status CANCELLED (heap r ! b)]\<rparr>"
      using cancel_job_cases[of save_err jid r] by blast
    then show ?thesis
    proof cases
      case same
      then show ?thesis using CancelJob assms(3) by simp
    next
      case cancelled
      then have "b \<noteq> a" using nr by auto
      then show ?thesis using CancelJob cancelled(2) assms(3) by simp
    qed
  next
    case (TaskStep t sw)
    let ?tk = "tasks r ! t"
    consider (same) "task_step t sw r = r"
      | (over) "task_step t sw r = r\<lparr>tasks := (tasks r)[t := ?tk\<lparr>phase := Done\<rparr>]\<rparr>"
      | (first_seg) b j' ph where "t < length (tasks r)" "phase ?tk = Created"
          "jobs r (t_job_id ?tk) = Some b"
          "task_step t sw r
             = r\<lparr>heap := (heap r)[b := j'],
                 tasks := (tasks r)[t := ?tk\<lparr>phase := ph, job_ref := Some b\<rparr>]\<rparr>"
      | (last_seg) b where "t < length (tasks r)" "phase ?tk = AtGather" "\<not> must_cancel ?tk"
          "job_ref ?tk = Some b"
          "task_step t sw r
             = r\<lparr>heap := (heap r)[b := run_job_finish sw (heap r ! b)],
                 tasks := (tasks r)[t := ?tk\<lparr>phase := Done\<rparr>]\<rparr>"
      using task_step_cases[of t sw r] by blast
    then show ?thesis
    proof cases
      case same
      then show ?thesis using TaskStep assms(3) by simp
    next
      case over
      then show ?thesis using TaskStep assms(3) by simp
    next
      case first_seg
      have "b \<noteq> a"
      proof
        assume "b = a"
        then have "h = t"
          using holder_is_registered[OF it ir ij first_seg(1) _ h(1) h(2)] first_seg(3) by simp
        then have "phase ?tk \<noteq> Created" using ir h by (simp add: inv_ref_def)
        then show False using first_seg(2) by simp
      qed
      then show ?thesis using TaskStep first_seg(4) assms(3) by simp
    next
      case last_seg
      have "status (heap r ! b) = RUNNING"
        using iw last_seg(1-4) by (simp add: inv_wait_def)
      then have "b \<noteq> a" using nr by auto
      then show ?thesis using TaskStep last_seg(5) assms(3) by simp
    qed
  qed
qed

lemma terminal_kept_by_events:
  "inv r \<Longrightarrow> guarded es r \<Longrightarrow> a < length (heap r) \<Longrightarrow> terminal (status (heap r ! a))
     \<Longrightarrow> a < length (heap (run_events es r))
         \<and> status (heap (run_events es r) ! a) = status (heap r ! a)"
proof (induction es arbitrary: r)
  case Nil
  then show ?case by simp
next
  case (Cons e es)
  have ok: "ok_event r e" and g: "guarded es (apply_event e r)" using Cons.prems(2) by simp_all
  have k: "a < length (heap (apply_event e r))
       \<and> status (heap (apply_event e r) ! a) = status (heap r ! a)"
    using terminal_kept_by_event[OF Cons.prems(1) ok Cons.prems(3) Cons.prems(4)] .
  have i: "inv (apply_event e r)" using inv_apply_event[OF Cons.prems(1) ok] .
  have "a < length (heap (run_events es (apply_event e r)))
       \<and> status (heap (run_events es (apply_event e r)) ! a)
           = status (heap (apply_event e r) ! a)"
    using Cons.IH[OF i g] k Cons.prems(4) by simp
  then show ?case using k by simp
qed

lemma run_events_append: "run_events (es0 @ es) r = run_events es (run_events es0 r)"
  by (induction es0 arbitrary: r) simp_all

lemma guarded_append:
  "guarded (es0 @ es) r = (guarded es0 r \<and> guarded es (run_events es0 r))"
  by (induction es0 arbitrary: r) simp_all

text \<open>
  Claim C8, as the code has it.  Start from an empty registry and apply any sequence of
  orchestrator operations (\<open>create_job\<close>, \<open>start_job\<close>, \<open>cancel_job\<close>, and the scheduling
  steps of the tasks that run \<open>run_job\<close>) in which \<open>start_job\<close> is called at most once for
  each job id.  Once the status of a job is completed, failed or cancelled, no later
  operation of the sequence changes it.
\<close>

theorem terminal_states_are_final:
  assumes "guarded (es0 @ es) (new_runner dir)"
    and "a < length (heap (run_events es0 (new_runner dir)))"
    and "terminal (status (heap (run_events es0 (new_runner dir)) ! a))"
  shows "a < length (heap (run_events (es0 @ es) (new_runner dir)))
       \<and> status (heap (run_events (es0 @ es) (new_runner dir)) ! a)
           = status (heap (run_events es0 (new_runner dir)) ! a)"
proof -
  have g0: "guarded es0 (new_runner dir)"
    and g: "guarded es (run_events es0 (new_runner dir))"
    using assms(1) by (simp_all add: guarded_append)
  have i: "inv (run_events es0 (new_runner dir))"
    using inv_run_events[OF inv_new_runner g0] .
  show ?thesis
    using terminal_kept_by_events[OF i g assms(2) assms(3)] by (simp add: run_events_append)
qed

subsection \<open>Sample runs\<close>

text \<open>Exact arithmetic, a world in which nothing fails and the one question of the job is
  skipped, a job with one question, and the operations that create it, start it, run its
  task up to the \<open>await\<close> and then to the end.\<close>

definition exact_arith :: arith where
  "exact_arith = \<lparr>fadd = (+), fdiv = (/)\<rparr>"

definition ok_world :: step_world where
  "ok_world = \<lparr>mkdir_error = None, save_error = None, setup_error = None,
                gathered = [Inr None], leaderboard_error = None, completed_save_error = None,
                float_arith = exact_arith\<rparr>"

definition job1 :: string where
  "job1 = ''comp_judge_20250101_000000_000001''"

definition create1 :: event where
  "create1 = CreateJob ''20250101_000000_000001'' ''2025-01-01T00:00:00'' [''run1''] [''q1'']"

definition completed_run :: "event list" where
  "completed_run = [create1, StartJob job1, TaskStep 0 ok_world, TaskStep 0 ok_world]"

lemmas sample_defs =
  ok_world_def job1_def create1_def completed_run_def new_runner_def create_job_def
  start_job_def task_step_def job_at_def run_job_begin_def run_job_finish_def set_status_def
  fail_job_def cancel_job_def request_cancel_def calculate_leaderboard_def aggregate_def
  ok_event_def terminal_def Let_def

lemma pending_state:
  "jobs (run_events [create1] (new_runner ''results'')) job1 = Some 0
   \<and> job_at (run_events [create1] (new_runner ''results'')) 0
       = Some (heap (run_events [create1] (new_runner ''results'')) ! 0)
   \<and> status (heap (run_events [create1] (new_runner ''results'')) ! 0) = PENDING"
  by (simp add: sample_defs)

lemma running_state:
  "status (heap (run_events [create1, StartJob job1, TaskStep 0 ok_world]
                   (new_runner ''results'')) ! 0) = RUNNING"
  by (simp add: sample_defs)

lemma running_state_cancel:
  "fst (cancel_job None job1 (run_events [create1, StartJob job1, TaskStep 0 ok_world]
                   (new_runner ''results''))) = Inr True"
  by (simp add: sample_defs)

lemma completed_state:
  "length (heap (run_events completed_run (new_runner ''results''))) = 1
   \<and> status (heap (run_events completed_run (new_runner ''results'')) ! 0) = COMPLETED"
  by (simp add: sample_defs)

theorem cancel_job_contract_witness:
  "cancel_job None job1 (run_events [create1] (new_runner ''results''))
     = (Inr False, run_events [create1] (new_runner ''results''))
   \<and> fst (cancel_job None job1 (run_events [create1, StartJob job1, TaskStep 0 ok_world]
                   (new_runner ''results''))) = Inr True
   \<and> (\<exists>a j. jobs (snd (cancel_job None job1
                  (run_events [create1, StartJob job1, TaskStep 0 ok_world]
                     (new_runner ''results'')))) job1 = Some a
          \<and> job_at (snd (cancel_job None job1
                  (run_events [create1, StartJob job1, TaskStep 0 ok_world]
                     (new_runner ''results'')))) a = Some j
          \<and> status j = CANCELLED \<and> p_status (progress j) = CANCELLED)"
proof -
  let ?p = "run_events [create1] (new_runner ''results'')"
  let ?r = "run_events [create1, StartJob job1, TaskStep 0 ok_world] (new_runner ''results'')"
  have np: "\<exists>a j. jobs ?p job1 = Some a \<and> job_at ?p a = Some j \<and> status j \<noteq> RUNNING"
    using pending_state by (metis job_status.distinct(1))
  have 1: "cancel_job None job1 ?p = (Inr False, ?p)"
    using cancel_job_contract[of ?p job1 None] np by blast
  have c: "cancel_job None job1 ?r = (Inr True, snd (cancel_job None job1 ?r))"
    using running_state_cancel by (metis prod.collapse)
  have 2: "\<exists>a j. jobs (snd (cancel_job None job1 ?r)) job1 = Some a
          \<and> job_at (snd (cancel_job None job1 ?r)) a = Some j
          \<and> status j = CANCELLED \<and> p_status (progress j) = CANCELLED"
    using cancel_job_contract[of ?r job1 None "snd (cancel_job None job1 ?r)"] c by blast
  show ?thesis using 1 2 running_state_cancel by blast
qed

definition later_operations :: "event list" where
  "later_operations =
     [CancelJob job1 None, TaskStep 0 ok_world,
      CreateJob ''20250101_000000_000002'' ''2025-01-01T00:00:01'' [''run1''] [''q1''],
      StartJob ''comp_judge_20250101_000000_000002'', TaskStep 1 ok_world]"

lemma later_operations_guarded:
  "guarded (completed_run @ later_operations) (new_runner ''results'')"
  by (simp add: later_operations_def sample_defs)

theorem terminal_states_are_final_witness:
  "status (heap (run_events (completed_run @ later_operations) (new_runner ''results'')) ! 0)
     = COMPLETED"
proof -
  have a: "0 < length (heap (run_events completed_run (new_runner ''results'')))"
    using completed_state by simp
  have t: "terminal (status (heap (run_events completed_run (new_runner ''results'')) ! 0))"
    using completed_state by (simp add: terminal_def)
  show ?thesis
    using terminal_states_are_final[OF later_operations_guarded a t] completed_state by simp
qed

text \<open>\<open>run_job\<close> has no guard on the current status: starting the completed job (a job
  with one question) again makes it running, and it stays so while the task waits at the
  \<open>await\<close>.\<close>

theorem completed_job_runs_again:
  "terminal (status (heap (run_events completed_run (new_runner ''results'')) ! 0))
   \<and> status (heap (run_events (completed_run @ [StartJob job1, TaskStep 1 ok_world])
                     (new_runner ''results'')) ! 0) = RUNNING"
  by (simp add: sample_defs)

subsection \<open>The leaderboard\<close>

text \<open>The results of one model over all questions, in the order of the input: what the
  leaderboard entry of the model is computed from.\<close>

definition scored_results :: "string \<Rightarrow> (string \<times> (string \<times> result) list) list \<Rightarrow> result list" where
  "scored_results name all_results =
     map snd (filter (\<lambda>mr. fst mr = name) (concat (map snd all_results)))"

definition data_of :: "result list \<Rightarrow> model_data" where
  "data_of rs =
     \<lparr>scores = map r_score rs, passed_count = length (filter (\<lambda>r. r_passed r = Some True) rs)\<rparr>"

lemma aggregate_fold:
  "foldl (\<lambda>model_scores (question_id, question_results).
            foldl add_result model_scores question_results) ms all_results
   = foldl add_result ms (concat (map snd all_results))"
  by (induction all_results arbitrary: ms) (auto simp: split_beta)

lemma aggregate_flat: "aggregate all_results = foldl add_result [] (concat (map snd all_results))"
  by (simp add: aggregate_def aggregate_fold)

lemma add_result_distinct: "distinct (map fst ms) \<Longrightarrow> distinct (map fst (add_result ms mr))"
  by (cases mr) (simp add: add_result_def Let_def distinct_update)

lemma fold_add_result_distinct:
  "distinct (map fst ms) \<Longrightarrow> distinct (map fst (foldl add_result ms rs))"
  by (induction rs arbitrary: ms) (simp_all add: add_result_distinct)

lemma map_of_add_result:
  "map_of (add_result ms (n, res)) name =
     (if name = n
      then Some \<lparr>scores = scores (case map_of ms n of
                                    None \<Rightarrow> \<lparr>scores = [], passed_count = 0\<rparr> | Some d0 \<Rightarrow> d0)
                          @ [r_score res],
                 passed_count =
                   passed_count (case map_of ms n of
                                   None \<Rightarrow> \<lparr>scores = [], passed_count = 0\<rparr> | Some d0 \<Rightarrow> d0)
                   + (if r_passed res = Some True then 1 else 0)\<rparr>
      else map_of ms name)"
  by (simp add: add_result_def Let_def update_conv')

lemma map_of_fold_add_result:
  "map_of (foldl add_result [] rs) name =
     (if map snd (filter (\<lambda>mr. fst mr = name) rs) = [] then None
      else Some (data_of (map snd (filter (\<lambda>mr. fst mr = name) rs))))"
proof (induction rs rule: rev_induct)
  case Nil
  then show ?case by simp
next
  case (snoc x rs)
  obtain n res where x: "x = (n, res)" by (cases x)
  show ?case
  proof (cases "name = n")
    case True
    then show ?thesis
      using snoc x by (auto simp add: map_of_add_result data_of_def filter_empty_conv)
  next
    case False
    then show ?thesis
      using snoc x by (simp add: map_of_add_result)
  qed
qed

definition entry_of :: "arith \<Rightarrow> string \<times> model_data \<Rightarrow> leaderboard_entry" where
  "entry_of ar md =
     \<lparr>lb_model_name = fst md,
      average_score = (if scores (snd md) \<noteq> []
                       then fdiv ar (py_sum ar (scores (snd md))) (real (length (scores (snd md))))
                       else 0),
      total_questions = length (scores (snd md)),
      lb_passed_count = passed_count (snd md),
      pass_rate = (if scores (snd md) \<noteq> []
                   then fdiv ar (real (passed_count (snd md))) (real (length (scores (snd md))))
                   else 0)\<rparr>"

lemma build_entry_total: "build_entry ar md = Inr (entry_of ar md)"
  by (cases md) (simp add: build_entry_def entry_of_def py_div_def)

lemma build_entries_total: "build_entries ar ms = Inr (map (entry_of ar) ms)"
  by (induction ms) (simp_all add: build_entry_total)

lemma calculate_leaderboard_eq:
  "calculate_leaderboard ar all_results =
     Inr (sort_key (\<lambda>x. - average_score x) (map (entry_of ar) (aggregate all_results)))"
  by (simp add: calculate_leaderboard_def build_entries_total)

lemma distinct_map_insort_key:
  "distinct (map g (insort_key f x xs)) = (g x \<notin> g ` set xs \<and> distinct (map g xs))"
  by (induction xs) (auto simp: set_insort_key)

lemma distinct_map_sort_key: "distinct (map g (sort_key f xs)) = distinct (map g xs)"
  by (induction xs) (simp_all add: distinct_map_insort_key)

lemma aggregate_names:
  "fst ` set (aggregate all_results) = fst ` set (concat (map snd all_results))"
proof -
  let ?flat = "concat (map snd all_results)"
  have "\<And>n. (n \<in> fst ` set (aggregate all_results)) = (n \<in> fst ` set ?flat)"
  proof -
    fix n
    have "(n \<in> fst ` set (aggregate all_results)) = (map_of (aggregate all_results) n \<noteq> None)"
      by (simp add: map_of_eq_None_iff)
    also have "\<dots> = (map snd (filter (\<lambda>mr. fst mr = n) ?flat) \<noteq> [])"
      by (simp add: aggregate_flat map_of_fold_add_result)
    also have "\<dots> = (n \<in> fst ` set ?flat)"
      by (auto simp: filter_empty_conv)
    finally show "(n \<in> fst ` set (aggregate all_results)) = (n \<in> fst ` set ?flat)" .
  qed
  then show ?thesis by blast
qed

lemma aggregate_entry:
  assumes "md \<in> set (aggregate all_results)"
  shows "snd md = data_of (scored_results (fst md) all_results)
       \<and> scored_results (fst md) all_results \<noteq> []"
proof -
  have d: "distinct (map fst (aggregate all_results))"
    by (simp add: aggregate_flat fold_add_result_distinct)
  have "(fst md, snd md) \<in> set (aggregate all_results)"
    using assms by simp
  then have "map_of (aggregate all_results) (fst md) = Some (snd md)"
    using map_of_eq_Some_iff[OF d] by blast
  then show ?thesis
    by (simp add: aggregate_flat map_of_fold_add_result scored_results_def split: if_splits)
qed


text \<open>
  Claim C7.  For every set of per-question results and whatever the rounding of the float
  operations, the leaderboard is computed without an error (no division by zero); it has
  exactly one entry for each model that occurs in the results; in each entry
  \<open>total_questions\<close> is the number of results of that model (and is positive),
  \<open>passed_count\<close> the number of them that passed, \<open>pass_rate\<close> is the quotient
  \<open>passed_count / total_questions\<close> as the machine computes it and \<open>average_score\<close> is the
  machine's quotient of the sum of the model's scores by \<open>total_questions\<close>; the entries
  are in order of non-increasing average score.  An entry for a model without scores would
  get average 0 and pass rate 0 instead of an error.
\<close>

theorem leaderboard_correct:
  "(\<exists>lb. calculate_leaderboard ar all_results = Inr lb
       \<and> distinct (map lb_model_name lb)
       \<and> set (map lb_model_name lb) = fst ` set (concat (map snd all_results))
       \<and> (\<forall>e \<in> set lb.
             total_questions e = length (scored_results (lb_model_name e) all_results)
             \<and> 0 < total_questions e
             \<and> lb_passed_count e
                 = length (filter (\<lambda>r. r_passed r = Some True)
                             (scored_results (lb_model_name e) all_results))
             \<and> pass_rate e = fdiv ar (real (lb_passed_count e)) (real (total_questions e))
             \<and> average_score e
                 = fdiv ar (py_sum ar (map r_score (scored_results (lb_model_name e) all_results)))
                     (real (total_questions e)))
       \<and> sorted_wrt (\<lambda>a b. average_score b \<le> average_score a) lb)
   \<and> build_entry ar (name, \<lparr>scores = [], passed_count = p\<rparr>)
       = Inr \<lparr>lb_model_name = name, average_score = 0, total_questions = 0,
              lb_passed_count = p, pass_rate = 0\<rparr>"
proof (intro conjI)
  let ?agg = "aggregate all_results"
  let ?lb = "sort_key (\<lambda>x. - average_score x) (map (entry_of ar) ?agg)"
  have names: "map lb_model_name (map (entry_of ar) ?agg) = map fst ?agg"
    by (simp add: entry_of_def)
  have d: "distinct (map lb_model_name ?lb)"
    unfolding distinct_map_sort_key names
    by (simp add: aggregate_flat fold_add_result_distinct)
  have s: "set (map lb_model_name ?lb) = fst ` set (concat (map snd all_results))"
  proof -
    have "set (map lb_model_name ?lb) = set (map lb_model_name (map (entry_of ar) ?agg))"
      by (simp del: map_map)
    also have "\<dots> = set (map fst ?agg)" unfolding names ..
    also have "\<dots> = fst ` set ?agg" by simp
    finally show ?thesis by (simp only: aggregate_names)
  qed
  have e: "\<forall>e \<in> set ?lb.
             total_questions e = length (scored_results (lb_model_name e) all_results)
             \<and> 0 < total_questions e
             \<and> lb_passed_count e
                 = length (filter (\<lambda>r. r_passed r = Some True)
                             (scored_results (lb_model_name e) all_results))
             \<and> pass_rate e = fdiv ar (real (lb_passed_count e)) (real (total_questions e))
             \<and> average_score e
                 = fdiv ar (py_sum ar (map r_score (scored_results (lb_model_name e) all_results)))
                     (real (total_questions e))"
  proof
    fix e assume "e \<in> set ?lb"
    then obtain md where md: "md \<in> set ?agg" and e: "e = entry_of ar md" by auto
    have sd: "snd md = data_of (scored_results (fst md) all_results)"
      and ne: "scored_results (fst md) all_results \<noteq> []"
      using aggregate_entry[OF md] by simp_all
    show "total_questions e = length (scored_results (lb_model_name e) all_results)
             \<and> 0 < total_questions e
             \<and> lb_passed_count e
                 = length (filter (\<lambda>r. r_passed r = Some True)
                             (scored_results (lb_model_name e) all_results))
             \<and> pass_rate e = fdiv ar (real (lb_passed_count e)) (real (total_questions e))
             \<and> average_score e
                 = fdiv ar (py_sum ar (map r_score (scored_results (lb_model_name e) all_results)))
                     (real (total_questions e))"
      using ne by (simp add: e entry_of_def sd data_of_def)
  qed
  have o: "sorted_wrt (\<lambda>a b. average_score b \<le> average_score a) ?lb"
  proof -
    have "sorted (map (\<lambda>x. - average_score x) ?lb)" by (rule sorted_sort_key)
    then show ?thesis by (simp add: sorted_map)
  qed
  show "\<exists>lb. calculate_leaderboard ar all_results = Inr lb
       \<and> distinct (map lb_model_name lb)
       \<and> set (map lb_model_name lb) = fst ` set (concat (map snd all_results))
       \<and> (\<forall>e \<in> set lb.
             total_questions e = length (scored_results (lb_model_name e) all_results)
             \<and> 0 < total_questions e
             \<and> lb_passed_count e
                 = length (filter (\<lambda>r. r_passed r = Some True)
                             (scored_results (lb_model_name e) all_results))
             \<and> pass_rate e = fdiv ar (real (lb_passed_count e)) (real (total_questions e))
             \<and> average_score e
                 = fdiv ar (py_sum ar (map r_score (scored_results (lb_model_name e) all_results)))
                     (real (total_questions e)))
       \<and> sorted_wrt (\<lambda>a b. average_score b \<le> average_score a) lb"
    using calculate_leaderboard_eq[of ar all_results] d s e o by blast
  show "build_entry ar (name, \<lparr>scores = [], passed_count = p\<rparr>)
       = Inr \<lparr>lb_model_name = name, average_score = 0, total_questions = 0,
              lb_passed_count = p, pass_rate = 0\<rparr>"
    by (simp add: build_entry_def)
qed

text \<open>Two questions and two models: \<open>m1\<close> scores 50 (not passed) and 100 (passed), \<open>m2\<close>
  scores 100 (passed) on the first question only.\<close>

definition sample_results :: "(string \<times> (string \<times> result) list) list" where
  "sample_results =
     [(''q1'', [(''m1'', \<lparr>r_score = 50, r_passed = Some False\<rparr>),
               (''m2'', \<lparr>r_score = 100, r_passed = Some True\<rparr>)]),
      (''q2'', [(''m1'', \<lparr>r_score = 100, r_passed = Some True\<rparr>)])]"

definition sample_board :: "leaderboard_entry list" where
  "sample_board =
     [\<lparr>lb_model_name = ''m2'', average_score = 100, total_questions = 1, lb_passed_count = 1,
       pass_rate = 1\<rparr>,
      \<lparr>lb_model_name = ''m1'', average_score = 75, total_questions = 2, lb_passed_count = 1,
       pass_rate = 1 / 2\<rparr>]"

lemma sample_aggregate:
  "aggregate sample_results =
     [(''m1'', \<lparr>scores = [50, 100], passed_count = 1\<rparr>),
      (''m2'', \<lparr>scores = [100], passed_count = 1\<rparr>)]"
  by (simp add: aggregate_flat add_result_def sample_results_def)

lemma sample_entries:
  "map (entry_of exact_arith) (aggregate sample_results) =
     [\<lparr>lb_model_name = ''m1'', average_score = 75, total_questions = 2, lb_passed_count = 1,
       pass_rate = 1 / 2\<rparr>,
      \<lparr>lb_model_name = ''m2'', average_score = 100, total_questions = 1, lb_passed_count = 1,
       pass_rate = 1\<rparr>]"
  by (simp add: sample_aggregate entry_of_def exact_arith_def py_sum_def)

lemma sample_leaderboard: "calculate_leaderboard exact_arith sample_results = Inr sample_board"
  unfolding calculate_leaderboard_eq sample_entries sample_board_def
  by simp

theorem leaderboard_correct_witness:
  "calculate_leaderboard exact_arith sample_results = Inr sample_board
   \<and> pass_rate (sample_board ! 1)
       = fdiv exact_arith (real (lb_passed_count (sample_board ! 1)))
           (real (total_questions (sample_board ! 1)))
   \<and> sorted_wrt (\<lambda>a b. average_score b \<le> average_score a) sample_board"
proof -
  have "\<exists>lb. calculate_leaderboard exact_arith sample_results = Inr lb
       \<and> distinct (map lb_model_name lb)
       \<and> set (map lb_model_name lb) = fst ` set (concat (map snd sample_results))
       \<and> (\<forall>e \<in> set lb.
             total_questions e = length (scored_results (lb_model_name e) sample_results)
             \<and> 0 < total_questions e
             \<and> lb_passed_count e
                 = length (filter (\<lambda>r. r_passed r = Some True)
                             (scored_results (lb_model_name e) sample_results))
             \<and> pass_rate e
                 = fdiv exact_arith (real (lb_passed_count e)) (real (total_questions e))
             \<and> average_score e
                 = fdiv exact_arith
                     (py_sum exact_arith
                        (map r_score (scored_results (lb_model_name e) sample_results)))
                     (real (total_questions e)))
       \<and> sorted_wrt (\<lambda>a b. average_score b \<le> average_score a) lb"
    using leaderboard_correct[of exact_arith sample_results] by (rule conjunct1)
  then obtain lb where h: "calculate_leaderboard exact_arith sample_results = Inr lb
       \<and> distinct (map lb_model_name lb)
       \<and> set (map lb_model_name lb) = fst ` set (concat (map snd sample_results))
       \<and> (\<forall>e \<in> set lb.
             total_questions e = length (scored_results (lb_model_name e) sample_results)
             \<and> 0 < total_questions e
             \<and> lb_passed_count e
                 = length (filter (\<lambda>r. r_passed r = Some True)
                             (scored_results (lb_model_name e) sample_results))
             \<and> pass_rate e
                 = fdiv exact_arith (real (lb_passed_count e)) (real (total_questions e))
             \<and> average_score e
                 = fdiv exact_arith
                     (py_sum exact_arith
                        (map r_score (scored_results (lb_model_name e) sample_results)))
                     (real (total_questions e)))
       \<and> sorted_wrt (\<lambda>a b. average_score b \<le> average_score a) lb" ..
  have lb: "calculate_leaderboard exact_arith sample_results = Inr lb"
    using h by (rule conjunct1)
  have eq: "lb = sample_board" using lb sample_leaderboard by simp
  have m: "sample_board ! 1 \<in> set lb" unfolding eq by (simp add: sample_board_def)
  note entries = h[THEN conjunct2, THEN conjunct2, THEN conjunct2, THEN conjunct1]
  note entry = bspec[OF entries m]
  have r: "pass_rate (sample_board ! 1)
          = fdiv exact_arith (real (lb_passed_count (sample_board ! 1)))
              (real (total_questions (sample_board ! 1)))"
    using entry[THEN conjunct2, THEN conjunct2, THEN conjunct2, THEN conjunct1] .
  have o: "sorted_wrt (\<lambda>a b. average_score b \<le> average_score a) sample_board"
    using h[THEN conjunct2, THEN conjunct2, THEN conjunct2, THEN conjunct2] unfolding eq .
  show ?thesis using sample_leaderboard r o by (intro conjI)
qed

section \<open>Which files the extractor returns\<close>

subsection \<open>The four filename conventions\<close>

text \<open>The files each convention names when it is applied alone to the whole text.\<close>

definition convention1 :: "string \<Rightarrow> files" where
  "convention1 text = foldl store3 [] (findall files_pattern1 3 text)"

definition convention2 :: "string \<Rightarrow> files" where
  "convention2 text = foldl store2 [] (findall files_pattern2 2 text)"

definition convention3 :: "string \<Rightarrow> files" where
  "convention3 text = foldl store2 [] (findall files_pattern3 2 text)"

definition convention4 :: "string \<Rightarrow> files" where
  "convention4 text = foldl store2 [] (findall files_pattern4 2 text)"

text \<open>The algorithm in the words of the specification: the conventions in order, the first
  one that yields a file wins, and inference is the fallback.\<close>

definition first_match_files :: "string \<Rightarrow> files" where
  "first_match_files text =
     (if convention1 text \<noteq> [] then convention1 text
      else if convention2 text \<noteq> [] then convention2 text
      else if convention3 text \<noteq> [] then convention3 text
      else if convention4 text \<noteq> [] then convention4 text
      else infer_files_from_blocks text)"

lemma map_of_store3: "map_of (store3 fs g) = map_of fs ++ map_of (store3 [] g)"
proof (cases "\<exists>lang filename code. g = [lang, filename, code]")
  case True
  then obtain lang filename code where "g = [lang, filename, code]" by blast
  then show ?thesis by (simp add: update_conv' map_add_def fun_eq_iff)
next
  case False
  then have "store3 fs g = fs"
    by (cases "(fs, g)" rule: store3.cases) auto
  moreover have "store3 [] g = []"
    using False by (cases "([] :: files, g)" rule: store3.cases) auto
  ultimately show ?thesis by simp
qed

lemma map_of_store2: "map_of (store2 fs g) = map_of fs ++ map_of (store2 [] g)"
proof (cases "\<exists>filename code. g = [filename, code]")
  case True
  then obtain filename code where "g = [filename, code]" by blast
  then show ?thesis by (simp add: update_conv' map_add_def fun_eq_iff)
next
  case False
  then have "store2 fs g = fs"
    by (cases "(fs, g)" rule: store2.cases) auto
  moreover have "store2 [] g = []"
    using False by (cases "([] :: files, g)" rule: store2.cases) auto
  ultimately show ?thesis by simp
qed

lemma map_of_fold_store3:
  "map_of (foldl store3 fs ms) = map_of fs ++ map_of (foldl store3 [] ms)"
proof (induction ms arbitrary: fs)
  case Nil
  then show ?case by simp
next
  case (Cons g ms)
  have "map_of (foldl store3 (store3 fs g) ms)
          = map_of (store3 fs g) ++ map_of (foldl store3 [] ms)"
    using Cons.IH[of "store3 fs g"] .
  moreover have "map_of (foldl store3 (store3 [] g) ms)
          = map_of (store3 [] g) ++ map_of (foldl store3 [] ms)"
    using Cons.IH[of "store3 [] g"] .
  ultimately show ?case using map_of_store3[of fs g] by simp
qed

lemma map_of_fold_store2:
  "map_of (foldl store2 fs ms) = map_of fs ++ map_of (foldl store2 [] ms)"
proof (induction ms arbitrary: fs)
  case Nil
  then show ?case by simp
next
  case (Cons g ms)
  have "map_of (foldl store2 (store2 fs g) ms)
          = map_of (store2 fs g) ++ map_of (foldl store2 [] ms)"
    using Cons.IH[of "store2 fs g"] .
  moreover have "map_of (foldl store2 (store2 [] g) ms)
          = map_of (store2 [] g) ++ map_of (foldl store2 [] ms)"
    using Cons.IH[of "store2 [] g"] .
  ultimately show ?case using map_of_store2[of fs g] by simp
qed

lemma hinted_files_map:
  "map_of (hinted_files text)
     = map_of (convention1 text) ++ map_of (convention2 text) ++ map_of (convention3 text)
       ++ map_of (convention4 text)"
proof -
  let ?f1 = "foldl store3 [] (findall files_pattern1 3 text)"
  let ?f2 = "foldl store2 ?f1 (findall files_pattern2 2 text)"
  let ?f3 = "foldl store2 ?f2 (findall files_pattern3 2 text)"
  let ?f4 = "foldl store2 ?f3 (findall files_pattern4 2 text)"
  have h: "hinted_files text = ?f4" by (simp add: hinted_files_def Let_def)
  have 2: "map_of ?f2 = map_of (convention1 text) ++ map_of (convention2 text)"
    using map_of_fold_store2[of ?f1] by (simp add: convention1_def convention2_def)
  have 3: "map_of ?f3 = map_of ?f2 ++ map_of (convention3 text)"
    using map_of_fold_store2[of ?f2] by (simp add: convention3_def)
  have 4: "map_of ?f4 = map_of ?f3 ++ map_of (convention4 text)"
    using map_of_fold_store2[of ?f3] by (simp add: convention4_def)
  show ?thesis unfolding h 4 3 2 ..
qed

lemma hinted_files_empty:
  "(hinted_files text = [])
     = (convention1 text = [] \<and> convention2 text = [] \<and> convention3 text = []
        \<and> convention4 text = [])"
proof -
  have "(hinted_files text = []) = (map_of (hinted_files text) = Map.empty)"
    by (simp add: map_of_eq_empty_iff)
  also have "\<dots> = (map_of (convention1 text) = Map.empty \<and> map_of (convention2 text) = Map.empty
        \<and> map_of (convention3 text) = Map.empty \<and> map_of (convention4 text) = Map.empty)"
    unfolding hinted_files_map by (simp only: map_add_eq_empty_iff conj_assoc)
  finally show ?thesis by (simp only: map_of_eq_empty_iff)
qed

text \<open>
  Claim C5, as the code has it.  The four filename conventions are all applied, in order,
  to the whole text, and their files are accumulated in one mapping: a file name has the
  content given by the last convention that names it, and the files of every convention
  that matched are returned together.  Inference from the bare blocks is used only when
  none of the four conventions yielded a file.
\<close>

theorem conventions_accumulate:
  "map_of (hinted_files text)
     = map_of (convention1 text) ++ map_of (convention2 text) ++ map_of (convention3 text)
       ++ map_of (convention4 text)
   \<and> extract_files_from_response text
       = (if convention1 text = [] \<and> convention2 text = [] \<and> convention3 text = []
             \<and> convention4 text = []
          then infer_files_from_blocks text
          else hinted_files text)"
  by (simp add: hinted_files_map hinted_files_empty extract_files_from_response_def Let_def)

text \<open>A text that uses two conventions: a fence with a file name in its language tag, and
  a heading that names the file of the next fence.\<close>

definition mixed_text :: string where
  "mixed_text = ''```html:a.html'' @ [NL] @ ''A'' @ [NL] @ ''```'' @ [NL]
                @ ''# b.js'' @ [NL] @ ''```js'' @ [NL] @ ''B'' @ [NL] @ ''```''"

lemma mixed_text_conventions:
  "convention1 mixed_text = [(''a.html'', ''A'')]" "convention2 mixed_text = []"
  "convention3 mixed_text = []" "convention4 mixed_text = [(''b.js'', ''B'')]"
  by code_simp+

lemma mixed_text_files:
  "extract_files_from_response mixed_text = [(''a.html'', ''A''), (''b.js'', ''B'')]"
  by code_simp

theorem conventions_accumulate_witness:
  "extract_files_from_response mixed_text = hinted_files mixed_text
   \<and> map_of (hinted_files mixed_text) ''a.html'' = Some ''A''
   \<and> map_of (hinted_files mixed_text) ''b.js'' = Some ''B''"
  using conventions_accumulate[of mixed_text]
  by (simp add: mixed_text_conventions)

text \<open>First match wins would return the file of the first convention only; the code
  returns the files of both.\<close>

theorem first_match_does_not_win:
  "first_match_files mixed_text = [(''a.html'', ''A'')]
   \<and> extract_files_from_response mixed_text = [(''a.html'', ''A''), (''b.js'', ''B'')]
   \<and> extract_files_from_response mixed_text \<noteq> first_match_files mixed_text"
  by (simp add: first_match_files_def mixed_text_conventions mixed_text_files)

subsection \<open>Inferred file names\<close>

text \<open>A text with two fenced JSON blocks and no file names.\<close>

definition two_json_text :: string where
  "two_json_text = ''```json'' @ [NL] @ ''1'' @ [NL] @ ''```'' @ [NL]
                   @ ''```json'' @ [NL] @ ''2'' @ [NL] @ ''```''"

text \<open>
  Claim C6 at this input.  The HTML, CSS and JavaScript branches of
  \<open>_infer_files_from_blocks\<close> number their files with a counter; the JSON branch always
  uses \<open>config.json\<close>.  Both blocks are found, both get the same name, and the content of
  the second overwrites the content of the first in the mapping that is returned.
\<close>

theorem json_blocks_collide:
  "findall infer_pattern 2 two_json_text = [[''json'', ''1'' @ [NL]], [''json'', ''2'' @ [NL]]]
   \<and> infer_files_from_blocks two_json_text = [(''config.json'', ''2'')]
   \<and> extract_files_from_response two_json_text = [(''config.json'', ''2'')]"
  by code_simp

end
